theory Spec2Isabelle
  imports Complex_Main "HOL-Library.Multiset"
begin

section \<open>Errors\<close>

text \<open>The Python exceptions the modelled functions can raise.\<close>

datatype error = IndexError | AttributeError | TypeError | ValueError | RuntimeError
  | ZeroDivisionError

fun traverse :: "('a \<Rightarrow> error + 'b) \<Rightarrow> 'a list \<Rightarrow> error + 'b list" where
  "traverse f [] = Inr []"
| "traverse f (x # xs) =
     (case f x of
        Inl e \<Rightarrow> Inl e
      | Inr y \<Rightarrow> (case traverse f xs of Inl e \<Rightarrow> Inl e | Inr ys \<Rightarrow> Inr (y # ys)))"

section \<open>Index sets: \<open>utils.py\<close>\<close>

subsection \<open>\<open>postprocess_indices\<close>\<close>

text \<open>
  \<^verbatim>\<open>
  def postprocess_indices(labeled_indices, unlabeled_indices, samples_indices):
      unlabeled_mask = torch.ones(size=(len(unlabeled_indices),), dtype=torch.bool)
      unlabeled_mask[samples_indices] = 0
      labeled_indices = np.hstack([labeled_indices, unlabeled_indices[~unlabeled_mask]])
      unlabeled_indices = unlabeled_indices[unlabeled_mask]
      return labeled_indices, unlabeled_indices
  \<close>
  The index arrays are lists of dataset indices, \<open>samples_indices\<close> a list of positions
  into \<open>unlabeled_indices\<close>. An index into a tensor of length \<open>n\<close> may be negative
  (\<open>-1\<close> is the last position); outside \<open>-n \<le> i < n\<close> the assignment raises IndexError.
\<close>

definition norm_index :: "nat \<Rightarrow> int \<Rightarrow> error + nat" where
  "norm_index n i =
     (if 0 \<le> i \<and> i < int n then Inr (nat i)
      else if - int n \<le> i \<and> i < 0 then Inr (nat (i + int n))
      else Inl IndexError)"

text \<open>\<open>unlabeled_mask[samples_indices] = 0\<close>, one position after the other.\<close>

fun mask_clear :: "bool list \<Rightarrow> int list \<Rightarrow> error + bool list" where
  "mask_clear m [] = Inr m"
| "mask_clear m (i # rest) =
     (case norm_index (length m) i of
        Inl e \<Rightarrow> Inl e
      | Inr j \<Rightarrow> mask_clear (m[j := False]) rest)"

text \<open>Selecting from an array by a boolean mask of its own length.\<close>

definition select_mask :: "'a list \<Rightarrow> bool list \<Rightarrow> 'a list" where
  "select_mask xs m = map fst (filter snd (zip xs m))"

text \<open>
  \<open>xs[m]\<close>, a NumPy array indexed by a torch tensor of booleans. NumPy first asks the
  index object for an integer, and a tensor of exactly one element answers: \<open>[True]\<close>
  is the position \<open>1\<close> and \<open>[False]\<close> the position \<open>0\<close>. The result is then the one
  entry at that position (which \<open>np.hstack\<close> appends like an array of one entry), or
  IndexError when there is none. A mask of any other length is used as a mask.
\<close>

definition index_by_mask :: "'a list \<Rightarrow> bool list \<Rightarrow> error + 'a list" where
  "index_by_mask xs m =
     (if length m = 1
      then (let i = (if hd m then 1 else 0)
            in if i < length xs then Inr [xs ! i] else Inl IndexError)
      else Inr (select_mask xs m))"

definition postprocess_indices ::
  "int list \<Rightarrow> int list \<Rightarrow> int list \<Rightarrow> error + (int list \<times> int list)" where
  "postprocess_indices labeled_indices unlabeled_indices samples_indices =
     (case mask_clear (replicate (length unlabeled_indices) True) samples_indices of
        Inl e \<Rightarrow> Inl e
      | Inr unlabeled_mask \<Rightarrow>
     (case index_by_mask unlabeled_indices (map Not unlabeled_mask) of
        Inl e \<Rightarrow> Inl e
      | Inr promoted \<Rightarrow>
     (case index_by_mask unlabeled_indices unlabeled_mask of
        Inl e \<Rightarrow> Inl e
      | Inr remaining \<Rightarrow> Inr (labeled_indices @ promoted, remaining))))"

text \<open>The position a valid index denotes, and the indices that are valid.\<close>

definition position :: "nat \<Rightarrow> int \<Rightarrow> nat" where
  "position n i = (if 0 \<le> i then nat i else nat (i + int n))"

definition valid_position :: "nat \<Rightarrow> int \<Rightarrow> bool" where
  "valid_position n i \<longleftrightarrow> - int n \<le> i \<and> i < int n"

subsection \<open>\<open>stratified_random_sampling\<close>\<close>

text \<open>
  \<^verbatim>\<open>
  def stratified_random_sampling(unlabeled_indices, number):
      rng = default_rng()
      samples_indices = rng.choice(unlabeled_indices.shape[0], size=number, replace=False)
      return samples_indices
  \<close>
  \<open>main\<close> seeds three generators at startup: \<open>random.seed(args.seed)\<close>,
  \<open>torch.manual_seed(args.seed)\<close> and \<open>np.random.seed(args.seed)\<close>, the last one being
  NumPy's global legacy generator. \<open>default_rng()\<close>, called without a seed, builds a new
  generator from entropy it asks of the operating system. The environment of a call is
  therefore the seed given to \<open>main\<close> and the entropy the operating system hands out.

  NumPy's \<open>Generator.choice\<close> is a parameter: from the generator's seed, the population
  size and the sample size it gives the positions drawn. With \<open>replace=False\<close> it raises
  ValueError for a sample larger than the population (and for a negative size).
\<close>

record rng_env =
  global_seed :: int
  os_entropy :: nat

definition default_rng :: "rng_env \<Rightarrow> nat" where
  "default_rng env = os_entropy env"

type_synonym choice_fn = "nat \<Rightarrow> nat \<Rightarrow> nat \<Rightarrow> nat list"

definition stratified_random_sampling ::
  "choice_fn \<Rightarrow> rng_env \<Rightarrow> int list \<Rightarrow> int \<Rightarrow> error + nat list" where
  "stratified_random_sampling choice env unlabeled_indices number =
     (let rng = default_rng env in
      if number < 0 \<or> int (length unlabeled_indices) < number then Inl ValueError
      else Inr (choice rng (length unlabeled_indices) (nat number)))"

text \<open>
  What NumPy documents of \<open>choice\<close> without replacement: as many positions as asked for,
  pairwise distinct, each below the population size.
\<close>

definition choice_contract :: "choice_fn \<Rightarrow> bool" where
  "choice_contract choice \<longleftrightarrow>
     (\<forall>g n k. k \<le> n \<longrightarrow>
        length (choice g n k) = k \<and> distinct (choice g n k) \<and> set (choice g n k) \<subseteq> {..<n})"

text \<open>A sample generator that meets the contract, to run the function on.\<close>

definition rotating_choice :: choice_fn where
  "rotating_choice g n k = take k (rotate g [0..<n])"

section \<open>Floating-point values\<close>

text \<open>
  An entry of a score tensor is a float: a number, an infinity or \<open>nan\<close>. A number is
  taken as the real it stands for and arithmetic on numbers as exact: rounding, overflow
  and the sign of zero are not modelled. What is modelled is where an operation leaves
  the numbers, as IEEE 754 has it and as the source leaves it unguarded: \<open>x / 0\<close> is an
  infinity for \<open>x \<noteq> 0\<close> and \<open>nan\<close> for \<open>x = 0\<close>, \<open>log 0\<close> is \<open>-inf\<close>, the
  logarithm of a negative number is \<open>nan\<close>, \<open>0 * inf\<close> and \<open>inf - inf\<close> are
  \<open>nan\<close>, and \<open>nan\<close> propagates. None of these raises an exception.
\<close>

datatype fval = Fin real | PInf | NInf | NaN

fun fneg :: "fval \<Rightarrow> fval" where
  "fneg (Fin a) = Fin (- a)"
| "fneg PInf = NInf"
| "fneg NInf = PInf"
| "fneg NaN = NaN"

fun fadd :: "fval \<Rightarrow> fval \<Rightarrow> fval" where
  "fadd (Fin a) (Fin b) = Fin (a + b)"
| "fadd NaN _ = NaN"
| "fadd _ NaN = NaN"
| "fadd PInf NInf = NaN"
| "fadd NInf PInf = NaN"
| "fadd PInf _ = PInf"
| "fadd _ PInf = PInf"
| "fadd NInf _ = NInf"
| "fadd _ NInf = NInf"

fun fmul :: "fval \<Rightarrow> fval \<Rightarrow> fval" where
  "fmul (Fin a) (Fin b) = Fin (a * b)"
| "fmul NaN _ = NaN"
| "fmul _ NaN = NaN"
| "fmul (Fin a) PInf = (if 0 < a then PInf else if a < 0 then NInf else NaN)"
| "fmul (Fin a) NInf = (if 0 < a then NInf else if a < 0 then PInf else NaN)"
| "fmul PInf (Fin b) = (if 0 < b then PInf else if b < 0 then NInf else NaN)"
| "fmul NInf (Fin b) = (if 0 < b then NInf else if b < 0 then PInf else NaN)"
| "fmul PInf PInf = PInf"
| "fmul NInf NInf = PInf"
| "fmul PInf NInf = NInf"
| "fmul NInf PInf = NInf"

fun fdiv :: "fval \<Rightarrow> fval \<Rightarrow> fval" where
  "fdiv (Fin a) (Fin b) =
     (if b \<noteq> 0 then Fin (a / b) else if 0 < a then PInf else if a < 0 then NInf else NaN)"
| "fdiv NaN _ = NaN"
| "fdiv _ NaN = NaN"
| "fdiv (Fin a) _ = Fin 0"
| "fdiv PInf (Fin b) = (if 0 \<le> b then PInf else NInf)"
| "fdiv NInf (Fin b) = (if 0 \<le> b then NInf else PInf)"
| "fdiv _ _ = NaN"

text \<open>\<open>torch.log\<close> of a number.\<close>

definition flog :: "real \<Rightarrow> fval" where
  "flog x = (if 0 < x then Fin (ln x) else if x = 0 then NInf else NaN)"

definition fsum :: "fval list \<Rightarrow> fval" where
  "fsum xs = foldr fadd xs (Fin 0)"

text \<open>
  The two comparisons of floats: \<open>flt\<close> is \<open><\<close>, false whenever an argument is
  \<open>nan\<close>; \<open>fle\<close> is the order in which PyTorch sorts, \<open>nan\<close> counting as larger than
  every other value and equal to itself.
\<close>

fun flt :: "fval \<Rightarrow> fval \<Rightarrow> bool" where
  "flt NaN _ = False"
| "flt _ NaN = False"
| "flt (Fin a) (Fin b) = (a < b)"
| "flt NInf NInf = False"
| "flt NInf _ = True"
| "flt _ NInf = False"
| "flt PInf _ = False"
| "flt _ PInf = True"

definition fle :: "fval \<Rightarrow> fval \<Rightarrow> bool" where
  "fle a b \<longleftrightarrow> b = NaN \<or> a = b \<or> flt a b"

section \<open>Uncertainty sampling: \<open>active_learning/uncertainty_sampling.py\<close>\<close>

subsection \<open>Scoring functions\<close>

text \<open>
  A two-dimensional tensor is the list of its rows, one row per example. The scoring
  functions are static methods taking \<open>(probs, feat, feat_train)\<close>; \<open>feat_train\<close> is
  \<open>None\<close> in \<open>get_samples\<close> when the training loader is empty. Probabilities and
  features are numbers; a score is a float.
\<close>

type_synonym matrix = "real list list"

text \<open>\<open>torch.max(probs, dim=1)[0]\<close>: reducing a dimension of size zero raises IndexError.\<close>

definition row_max :: "real list \<Rightarrow> error + real" where
  "row_max r = (if r = [] then Inl IndexError else Inr (Max (set r)))"

definition least_confidence :: "matrix \<Rightarrow> matrix \<Rightarrow> matrix option \<Rightarrow> error + fval list" where
  "least_confidence probs feat feat_train =
     (case traverse row_max probs of
        Inl e \<Rightarrow> Inl e
      | Inr simple_least_conf \<Rightarrow> Inr (map Fin simple_least_conf))"

text \<open>
  \<open>probs = torch.sort(probs, dim=1)[0]\<close>, then \<open>probs[:, -1]\<close> and \<open>probs[:, -2]\<close>:
  the largest and second largest entry of each row; IndexError with fewer than two classes.
\<close>

definition top_two :: "real list \<Rightarrow> error + (real \<times> real)" where
  "top_two r =
     (let s = sort r; n = length s
      in if n < 2 then Inl IndexError else Inr (s ! (n - 1), s ! (n - 2)))"

definition margin_row :: "real list \<Rightarrow> error + fval" where
  "margin_row r = (case top_two r of Inl e \<Rightarrow> Inl e | Inr (a, b) \<Rightarrow> Inr (Fin (a - b)))"

definition margin_confidence :: "matrix \<Rightarrow> matrix \<Rightarrow> matrix option \<Rightarrow> error + fval list" where
  "margin_confidence probs feat feat_train = traverse margin_row probs"

text \<open>The quotient is a float division: a second largest entry of zero gives \<open>inf\<close> or \<open>nan\<close>.\<close>

definition ratio_row :: "real list \<Rightarrow> error + fval" where
  "ratio_row r =
     (case top_two r of Inl e \<Rightarrow> Inl e | Inr (a, b) \<Rightarrow> Inr (fdiv (Fin a) (Fin b)))"

definition ratio_confidence :: "matrix \<Rightarrow> matrix \<Rightarrow> matrix option \<Rightarrow> error + fval list" where
  "ratio_confidence probs feat feat_train = traverse ratio_row probs"

text \<open>
  \<open>log_probs = torch.log(probs)\<close>, \<open>entropy = torch.sum(-probs * log_probs, dim=1)\<close>.
  Nothing guards a probability of zero: its term is \<open>-0 * -inf\<close>, which is \<open>nan\<close>, and
  so is the entropy of the row.
\<close>

definition entropy_row :: "real list \<Rightarrow> fval" where
  "entropy_row r = fsum (map (\<lambda>p. fmul (Fin (- p)) (flog p)) r)"

definition entropy_based :: "matrix \<Rightarrow> matrix \<Rightarrow> matrix option \<Rightarrow> error + fval list" where
  "entropy_based probs feat feat_train = Inr (map entropy_row probs)"

text \<open>
  \<^verbatim>\<open>
  def density_weighted(probs, feat, feat_train):
      simple_least_conf = torch.max(probs, dim=1)[0]
      feat_norm = feat / feat.norm(dim=1)[:, None]
      feat_train_norm = feat_train / feat_train.norm(dim=1)[:, None]
      similarities = torch.mm(feat_norm, feat_train_norm.transpose(0, 1))
      return simple_least_conf * (-torch.mean(similarities, dim=1)+1)
  \<close>
  The exceptions, in the order the source meets them: the maximum over no classes,
  \<open>None.norm\<close>, \<open>torch.mm\<close> on rows of different widths, and a product of vectors that
  do not broadcast. The arithmetic raises nothing: a feature row of norm zero is divided
  into \<open>nan\<close>, and the mean over an empty reference bank is \<open>nan\<close>.
\<close>

definition norm_row :: "real list \<Rightarrow> real" where
  "norm_row f = sqrt (sum_list (map (\<lambda>x. x * x) f))"

definition normalize_row :: "real list \<Rightarrow> fval list" where
  "normalize_row f = map (\<lambda>x. fdiv (Fin x) (Fin (norm_row f))) f"

definition fdot :: "fval list \<Rightarrow> fval list \<Rightarrow> fval" where
  "fdot u v = fsum (map2 fmul u v)"

text \<open>All rows of two matrices have one width: what \<open>torch.mm\<close> and \<open>torch.cat\<close> require.\<close>

definition same_width :: "matrix \<Rightarrow> matrix \<Rightarrow> bool" where
  "same_width a b \<longleftrightarrow> (\<forall>u \<in> set a. \<forall>v \<in> set b. length u = length v)"

text \<open>\<open>torch.mm(a, b.transpose(0, 1))\<close>: the dot product of every row of \<open>a\<close> with every row of \<open>b\<close>.\<close>

definition mm_transposed :: "fval list list \<Rightarrow> fval list list \<Rightarrow> fval list list" where
  "mm_transposed a b = map (\<lambda>u. map (\<lambda>v. fdot u v) b) a"

definition mean_row :: "fval list \<Rightarrow> fval" where
  "mean_row r = fdiv (fsum r) (Fin (real (length r)))"

definition broadcastable :: "nat \<Rightarrow> nat \<Rightarrow> bool" where
  "broadcastable n m \<longleftrightarrow> n = m \<or> n = 1 \<or> m = 1"

definition broadcast_mul :: "real list \<Rightarrow> fval list \<Rightarrow> fval list" where
  "broadcast_mul xs ys =
     (if length xs = length ys then map2 (\<lambda>x y. fmul (Fin x) y) xs ys
      else if length xs = 1 then map (\<lambda>y. fmul (Fin (hd xs)) y) ys
      else map (\<lambda>x. fmul (Fin x) (hd ys)) xs)"

definition density_weighted :: "matrix \<Rightarrow> matrix \<Rightarrow> matrix option \<Rightarrow> error + fval list" where
  "density_weighted probs feat feat_train =
     (case traverse row_max probs of
        Inl e \<Rightarrow> Inl e
      | Inr simple_least_conf \<Rightarrow>
     (case feat_train of
        None \<Rightarrow> Inl AttributeError
      | Some ft \<Rightarrow>
     (if \<not> same_width feat ft then Inl RuntimeError
      else if \<not> broadcastable (length probs) (length feat) then Inl RuntimeError
      else
        let feat_norm = map normalize_row feat;
            feat_train_norm = map normalize_row ft;
            similarities = mm_transposed feat_norm feat_train_norm
        in Inr (broadcast_mul simple_least_conf
                  (map (\<lambda>r. fadd (fneg (mean_row r)) (Fin 1)) similarities)))))"

text \<open>
  The cosine similarity of two feature rows of non-zero norm, as \<open>density_weighted\<close>
  computes it: the dot product of the two rows, each divided by its norm.
\<close>

definition dot :: "real list \<Rightarrow> real list \<Rightarrow> real" where
  "dot u v = sum_list (map2 (*) u v)"

definition cosine_similarity :: "real list \<Rightarrow> real list \<Rightarrow> real" where
  "cosine_similarity u v =
     dot (map (\<lambda>x. x / norm_row u) u) (map (\<lambda>x. x / norm_row v) v)"

text \<open>
  Probability vectors, as \<open>softmax\<close> gives them: positive entries that add up to one. The
  spec compares two of them by which is "more peaked" and does not say what that means.
  Read here as the usual order of concentration, with a strictly larger top: \<open>p\<close> is more
  peaked than \<open>q\<close> when its largest entry is strictly larger and, for each \<open>k\<close>, its \<open>k\<close>
  largest entries add up to at least as much as the \<open>k\<close> largest of \<open>q\<close>.
\<close>

definition probability_vector :: "real list \<Rightarrow> bool" where
  "probability_vector p \<longleftrightarrow> list_all (\<lambda>x. 0 < x) p \<and> sum_list p = 1"

definition more_peaked :: "real list \<Rightarrow> real list \<Rightarrow> bool" where
  "more_peaked p q \<longleftrightarrow>
     length p = length q \<and> p \<noteq> [] \<and> Max (set q) < Max (set p) \<and>
     list_all (\<lambda>k. sum_list (take k (rev (sort q))) \<le> sum_list (take k (rev (sort p))))
       [1..<Suc (length p)]"

subsection \<open>The sampler object\<close>

text \<open>
  \<^verbatim>\<open>
  def __init__(self, uncertainty_sampling_method, verbose=False):
      self.uncertainty_sampling_method = uncertainty_sampling_method
      self.method = getattr(self, self.uncertainty_sampling_method)
      self.verbose = verbose
  \<close>
  \<open>getattr\<close> finds every attribute of the object: the instance attribute set on the line
  before, the names the class body defines (the five scoring functions, \<open>__init__\<close> and
  \<open>get_samples\<close>), and the names every Python object inherits (\<open>__class__\<close>,
  \<open>__doc__\<close>, ...), which are a parameter here, the set \<open>inherited\<close>. A name that is
  none of these raises AttributeError. The attribute \<open>self.method\<close> is the field
  \<open>method_fn\<close> of the record.
\<close>

datatype attribute =
    Least_confidence | Margin_confidence | Ratio_confidence | Entropy_based | Density_weighted
  | Init | Get_samples
  | Field string
  | Inherited string

definition class_attribute :: "string \<Rightarrow> attribute option" where
  "class_attribute name =
     (if name = ''__init__'' then Some Init
      else if name = ''least_confidence'' then Some Least_confidence
      else if name = ''margin_confidence'' then Some Margin_confidence
      else if name = ''ratio_confidence'' then Some Ratio_confidence
      else if name = ''entropy_based'' then Some Entropy_based
      else if name = ''density_weighted'' then Some Density_weighted
      else if name = ''get_samples'' then Some Get_samples
      else None)"

definition getattr :: "string set \<Rightarrow> string \<Rightarrow> string \<Rightarrow> error + attribute" where
  "getattr inherited self_uncertainty_sampling_method name =
     (if name = ''uncertainty_sampling_method'' then Inr (Field self_uncertainty_sampling_method)
      else case class_attribute name of
        Some a \<Rightarrow> Inr a
      | None \<Rightarrow> if name \<in> inherited then Inr (Inherited name) else Inl AttributeError)"

record sampler =
  uncertainty_sampling_method :: string
  method_fn :: attribute
  verbose :: bool

definition UncertaintySampling ::
  "string set \<Rightarrow> string \<Rightarrow> bool \<Rightarrow> error + sampler" where
  "UncertaintySampling inherited name verb =
     (case getattr inherited name name of
        Inl e \<Rightarrow> Inl e
      | Inr m \<Rightarrow> Inr \<lparr>uncertainty_sampling_method = name, method_fn = m, verbose = verb\<rparr>)"

definition scoring_names :: "string list" where
  "scoring_names = [''least_confidence'', ''margin_confidence'', ''ratio_confidence'',
     ''entropy_based'', ''density_weighted'']"

subsection \<open>What the libraries provide\<close>

text \<open>
  \<open>get_samples\<close> relies on three things it does not define, which are parameters here.

  \<^item> \<open>F.softmax(output, dim=1)\<close>, float arithmetic of PyTorch, from a matrix of logits to a
    matrix of probabilities of the same shape. In floats a probability can be exactly
    \<open>0\<close> or \<open>1\<close> (the exponential of a large negative number is rounded to zero),
    which the exact function never gives.
  \<^item> \<open>Tensor.argsort\<close>, taking the \<open>descending\<close> flag and the scores. The source calls
    it with the default \<open>stable=False\<close>, for which PyTorch documents that the order of
    equal elements is not guaranteed.
  \<^item> The call \<open>self.method(probs, feat, feat_train)\<close> where \<open>self.method\<close> is an
    attribute every Python object inherits: \<open>inherited_call\<close> gives the exception the
    call raises, or nothing when the call returns; what it returns is then neither a
    tensor nor \<open>None\<close>. \<open>__doc__\<close> is not callable, a TypeError;
    \<open>__subclasshook__\<close> takes any arguments and returns \<open>NotImplemented\<close>.
\<close>

record library =
  softmax :: "matrix \<Rightarrow> matrix"
  argsort :: "bool \<Rightarrow> fval list \<Rightarrow> nat list"
  inherited_call :: "string \<Rightarrow> error option"

text \<open>
  What is guaranteed of the two functions: \<open>softmax\<close> keeps the shape of its argument,
  and \<open>argsort\<close> returns a permutation of the positions that orders the scores, \<open>nan\<close>
  counting as the largest.
\<close>

definition softmax_contract :: "(matrix \<Rightarrow> matrix) \<Rightarrow> bool" where
  "softmax_contract sm \<longleftrightarrow> (\<forall>output. map length (sm output) = map length output)"

definition ordered_by :: "bool \<Rightarrow> fval \<Rightarrow> fval \<Rightarrow> bool" where
  "ordered_by descending a b = (if descending then fle b a else fle a b)"

definition argsort_contract :: "(bool \<Rightarrow> fval list \<Rightarrow> nat list) \<Rightarrow> bool" where
  "argsort_contract srt \<longleftrightarrow>
     (\<forall>descending xs.
        mset (srt descending xs) = mset [0..<length xs] \<and>
        sorted_wrt (ordered_by descending) (map (\<lambda>i. xs ! i) (srt descending xs)))"

subsection \<open>\<open>get_samples\<close>\<close>

text \<open>
  \<open>self.method(probs, feat, feat_train)\<close>. The scoring functions give a tensor of
  scores. \<open>__init__\<close> and \<open>get_samples\<close> take other arguments and the string
  \<open>uncertainty_sampling_method\<close> is not callable: a TypeError. The call of an inherited
  attribute is the library's.
\<close>

datatype call_result = Scores "fval list" | NotATensor

definition tensor :: "error + fval list \<Rightarrow> error + call_result" where
  "tensor r = (case r of Inl e \<Rightarrow> Inl e | Inr score \<Rightarrow> Inr (Scores score))"

fun call_method ::
  "library \<Rightarrow> attribute \<Rightarrow> matrix \<Rightarrow> matrix \<Rightarrow> matrix option \<Rightarrow> error + call_result" where
  "call_method lib Least_confidence probs feat feat_train =
     tensor (least_confidence probs feat feat_train)"
| "call_method lib Margin_confidence probs feat feat_train =
     tensor (margin_confidence probs feat feat_train)"
| "call_method lib Ratio_confidence probs feat feat_train =
     tensor (ratio_confidence probs feat feat_train)"
| "call_method lib Entropy_based probs feat feat_train =
     tensor (entropy_based probs feat feat_train)"
| "call_method lib Density_weighted probs feat feat_train =
     tensor (density_weighted probs feat feat_train)"
| "call_method lib Init probs feat feat_train = Inl TypeError"
| "call_method lib Get_samples probs feat feat_train = Inl TypeError"
| "call_method lib (Field v) probs feat feat_train = Inl TypeError"
| "call_method lib (Inherited v) probs feat feat_train =
     (case inherited_call lib v of Some e \<Rightarrow> Inl e | None \<Rightarrow> Inr NotATensor)"

text \<open>
  \<^verbatim>\<open>
  def get_samples(self, epoch, args, model, train_loader, unlabeled_loader, number):
      samples = None
      feat_train = None
      model.eval()
      for i, (data_x, data_y) in enumerate(train_loader):
          with torch.no_grad():
              output, feat = model(data_x)
          feat_train = feat if feat_train is None else torch.cat([feat_train, feat])
      for i, (data_x, data_y) in enumerate(unlabeled_loader):
          with torch.no_grad():
              output, feat = model(data_x)
          score = self.method(F.softmax(output, dim=1), feat, feat_train)
          samples = score if samples is None else torch.cat([samples, score])
          if i % args.print_freq == 0:
              print(...)
      if self.uncertainty_sampling_method == 'entropy_based':
          return samples.argsort(descending=True)[:number]
      else:
          return samples.argsort()[:number]
  \<close>
  A loader is the list of its batches \<open>(data_x, data_y)\<close>, the model a function from a
  batch of inputs to \<open>(output, feat)\<close>, two matrices of numbers. The local variables are
  a record, together with the batches the model has been called on so far.

  \<open>torch.cat\<close> of two feature matrices raises RuntimeError when their rows differ in
  width, and TypeError when an argument is no tensor. \<open>samples.argsort\<close> raises
  AttributeError when \<open>samples\<close> is \<open>None\<close> or another value that is no tensor.
\<close>

type_synonym 'x model = "'x list \<Rightarrow> matrix \<times> matrix"

type_synonym 'x loader = "('x list \<times> int list) list"

record 'x locals =
  samples :: "call_result option"
  feat_train :: "matrix option"
  calls :: "'x list list"

definition cat_scores :: "call_result \<Rightarrow> call_result \<Rightarrow> error + call_result" where
  "cat_scores a b =
     (case (a, b) of
        (Scores s, Scores score) \<Rightarrow> Inr (Scores (s @ score))
      | _ \<Rightarrow> Inl TypeError)"

fun train_pass :: "'x model \<Rightarrow> 'x loader \<Rightarrow> 'x locals \<Rightarrow> error + 'x locals" where
  "train_pass model [] st = Inr st"
| "train_pass model ((data_x, data_y) # rest) st =
     (let (output, feat) = model data_x;
          st1 = st\<lparr>calls := calls st @ [data_x]\<rparr>
      in case feat_train st1 of
           None \<Rightarrow> train_pass model rest (st1\<lparr>feat_train := Some feat\<rparr>)
         | Some ft \<Rightarrow>
             if \<not> same_width ft feat then Inl RuntimeError
             else train_pass model rest (st1\<lparr>feat_train := Some (ft @ feat)\<rparr>))"

fun unlabeled_pass ::
  "library \<Rightarrow> sampler \<Rightarrow> int \<Rightarrow> 'x model \<Rightarrow> 'x loader \<Rightarrow> 'x locals \<Rightarrow> error + 'x locals" where
  "unlabeled_pass lib self print_freq model [] st = Inr st"
| "unlabeled_pass lib self print_freq model ((data_x, data_y) # rest) st =
     (let (output, feat) = model data_x;
          st1 = st\<lparr>calls := calls st @ [data_x]\<rparr>
      in case call_method lib (method_fn self) (softmax lib output) feat (feat_train st1) of
           Inl e \<Rightarrow> Inl e
         | Inr score \<Rightarrow>
             (case (case samples st1 of None \<Rightarrow> Inr score | Some s \<Rightarrow> cat_scores s score) of
                Inl e \<Rightarrow> Inl e
              | Inr s \<Rightarrow>
                  if print_freq = 0 then Inl ZeroDivisionError
                  else unlabeled_pass lib self print_freq model rest (st1\<lparr>samples := Some s\<rparr>)))"

text \<open>The slice \<open>xs[:number]\<close>; a negative \<open>number\<close> counts from the end.\<close>

definition py_take :: "int \<Rightarrow> 'a list \<Rightarrow> 'a list" where
  "py_take number xs =
     (if 0 \<le> number then take (nat number) xs
      else take (nat (int (length xs) + number)) xs)"

definition get_samples ::
  "library \<Rightarrow> sampler \<Rightarrow> int \<Rightarrow> 'x model \<Rightarrow> 'x loader \<Rightarrow> 'x loader \<Rightarrow> int \<Rightarrow>
   error + (nat list \<times> 'x list list)" where
  "get_samples lib self print_freq model train_loader unlabeled_loader number =
     (case train_pass model train_loader \<lparr>samples = None, feat_train = None, calls = []\<rparr> of
        Inl e \<Rightarrow> Inl e
      | Inr st1 \<Rightarrow>
     (case unlabeled_pass lib self print_freq model unlabeled_loader st1 of
        Inl e \<Rightarrow> Inl e
      | Inr st2 \<Rightarrow>
     (case samples st2 of
        None \<Rightarrow> Inl AttributeError
      | Some NotATensor \<Rightarrow> Inl AttributeError
      | Some (Scores s) \<Rightarrow>
          if uncertainty_sampling_method self = ''entropy_based''
          then Inr (py_take number (argsort lib True s), calls st2)
          else Inr (py_take number (argsort lib False s), calls st2))))"

text \<open>The value of \<open>samples\<close> after the second loop: what \<open>get_samples\<close> sorts.\<close>

definition unlabeled_scores ::
  "library \<Rightarrow> sampler \<Rightarrow> int \<Rightarrow> 'x model \<Rightarrow> 'x loader \<Rightarrow> 'x loader \<Rightarrow>
   error + call_result option" where
  "unlabeled_scores lib self print_freq model train_loader unlabeled_loader =
     (case train_pass model train_loader \<lparr>samples = None, feat_train = None, calls = []\<rparr> of
        Inl e \<Rightarrow> Inl e
      | Inr st1 \<Rightarrow>
     (case unlabeled_pass lib self print_freq model unlabeled_loader st1 of
        Inl e \<Rightarrow> Inl e
      | Inr st2 \<Rightarrow> Inr (samples st2)))"

text \<open>
  What the two loops compute, batch by batch: the feature bank is the features of all
  training batches, in loader order (\<open>None\<close> for an empty loader), and the scores of an
  unlabeled batch are the method applied to its probabilities, its features and the bank.
  The model gives one output row and one feature row per example of a batch.
\<close>

definition feature_bank :: "'x model \<Rightarrow> 'x loader \<Rightarrow> matrix option" where
  "feature_bank model train_loader =
     (if train_loader = [] then None
      else Some (concat (map (\<lambda>(data_x, data_y). snd (model data_x)) train_loader)))"

definition batch_scores ::
  "library \<Rightarrow> sampler \<Rightarrow> 'x model \<Rightarrow> matrix option \<Rightarrow> 'x list \<times> int list \<Rightarrow>
   error + call_result" where
  "batch_scores lib self model bank batch =
     call_method lib (method_fn self) (softmax lib (fst (model (fst batch))))
       (snd (model (fst batch))) bank"

definition model_rows_ok :: "'x model \<Rightarrow> bool" where
  "model_rows_ok model \<longleftrightarrow>
     (\<forall>b. length (fst (model b)) = length b \<and> length (snd (model b)) = length b)"

subsection \<open>The sort of the library on the CPU\<close>

text \<open>
  For \<open>stable=False\<close> PyTorch sorts the pairs (score, position) on the CPU with
  \<open>std::sort\<close> of the C++ standard library, comparing the scores only:
  \<^verbatim>\<open>
  KeyValueCompAsc:  (!isnan(lhs) && isnan(rhs)) || (lhs < rhs)
  KeyValueCompDesc: (isnan(lhs) && !isnan(rhs)) || (lhs > rhs)
  \<close>
  The functions below follow the GNU implementation of \<open>std::sort\<close>, an introsort on an
  array, here a list with positions.
  \<^verbatim>\<open>
  __sort(first, last):
      if (first != last) {
          __introsort_loop(first, last, __lg(last - first) * 2);
          __final_insertion_sort(first, last); }
  __introsort_loop(first, last, depth_limit):
      while (last - first > 16) {
          if (depth_limit == 0) { __partial_sort(first, last, last); return; }
          --depth_limit;
          cut = __unguarded_partition_pivot(first, last);
          __introsort_loop(cut, last, depth_limit);
          last = cut; }
  __unguarded_partition_pivot(first, last):
      mid = first + (last - first) / 2;
      __move_median_to_first(first, first + 1, mid, last - 1);
      return __unguarded_partition(first + 1, last, first);
  __unguarded_partition(first, last, pivot):
      while (true) {
          while (comp(first, pivot)) ++first;
          --last;
          while (comp(pivot, last)) --last;
          if (!(first < last)) return first;
          iter_swap(first, last);
          ++first; }
  \<close>
  A range of at most 16 elements is left to the final insertion sort, which keeps equal
  elements in their order; a longer range is first split around a pivot, and the split
  swaps elements that are equal to the pivot. One branch is not followed: when the depth
  limit is used up the library sorts the range by heap sort (\<open>__partial_sort\<close>), and the
  model leaves the range to the final insertion sort. The result is sorted all the same;
  the order of equal elements may then differ from the library's.
\<close>

definition iter_swap :: "nat \<Rightarrow> nat \<Rightarrow> 'a list \<Rightarrow> 'a list" where
  "iter_swap i j xs =
     (if i < length xs \<and> j < length xs then xs[i := xs ! j, j := xs ! i] else xs)"

definition move_median_to_first ::
  "('a \<Rightarrow> 'a \<Rightarrow> bool) \<Rightarrow> nat \<Rightarrow> nat \<Rightarrow> nat \<Rightarrow> nat \<Rightarrow> 'a list \<Rightarrow> 'a list" where
  "move_median_to_first cmp result a b c xs =
     (if cmp (xs ! a) (xs ! b) then
        (if cmp (xs ! b) (xs ! c) then iter_swap result b xs
         else if cmp (xs ! a) (xs ! c) then iter_swap result c xs
         else iter_swap result a xs)
      else if cmp (xs ! a) (xs ! c) then iter_swap result a xs
      else if cmp (xs ! b) (xs ! c) then iter_swap result c xs
      else iter_swap result b xs)"

text \<open>
  The two inner loops of the partition: \<open>while (comp(first, pivot)) ++first\<close> and
  \<open>while (comp(pivot, last)) --last\<close>, each stopping at the end of the array at the
  latest.
\<close>

definition scan_up :: "('a \<Rightarrow> 'a \<Rightarrow> bool) \<Rightarrow> 'a \<Rightarrow> 'a list \<Rightarrow> nat \<Rightarrow> nat" where
  "scan_up cmp pivot xs first =
     first + length (takeWhile (\<lambda>x. cmp x pivot) (drop first xs))"

definition scan_down :: "('a \<Rightarrow> 'a \<Rightarrow> bool) \<Rightarrow> 'a \<Rightarrow> 'a list \<Rightarrow> nat \<Rightarrow> nat" where
  "scan_down cmp pivot xs lst =
     lst - length (takeWhile (\<lambda>x. cmp pivot x) (rev (take (Suc lst) xs)))"

function unguarded_partition ::
  "('a \<Rightarrow> 'a \<Rightarrow> bool) \<Rightarrow> 'a \<Rightarrow> 'a list \<Rightarrow> nat \<Rightarrow> nat \<Rightarrow> 'a list \<times> nat" where
  "unguarded_partition cmp pivot xs first lst =
     (if \<not> scan_up cmp pivot xs first < scan_down cmp pivot xs (lst - 1)
      then (xs, scan_up cmp pivot xs first)
      else unguarded_partition cmp pivot
             (iter_swap (scan_up cmp pivot xs first) (scan_down cmp pivot xs (lst - 1)) xs)
             (Suc (scan_up cmp pivot xs first)) (scan_down cmp pivot xs (lst - 1)))"
  by pat_completeness auto

termination
  by (relation "measure (\<lambda>(cmp, pivot, xs, first, lst). lst - first)")
    (auto simp: scan_up_def scan_down_def)

definition unguarded_partition_pivot ::
  "('a \<Rightarrow> 'a \<Rightarrow> bool) \<Rightarrow> 'a list \<Rightarrow> nat \<Rightarrow> nat \<Rightarrow> 'a list \<times> nat" where
  "unguarded_partition_pivot cmp xs first lst =
     (let mid = first + (lst - first) div 2;
          xs1 = move_median_to_first cmp first (first + 1) mid (lst - 1) xs
      in unguarded_partition cmp (xs1 ! first) xs1 (first + 1) lst)"

fun introsort_loop ::
  "('a \<Rightarrow> 'a \<Rightarrow> bool) \<Rightarrow> nat \<Rightarrow> 'a list \<Rightarrow> nat \<Rightarrow> nat \<Rightarrow> 'a list" where
  "introsort_loop cmp 0 xs first lst = xs"
| "introsort_loop cmp (Suc depth_limit) xs first lst =
     (if 16 < lst - first then
        (case unguarded_partition_pivot cmp xs first lst of
           (xs1, middle) \<Rightarrow>
             introsort_loop cmp depth_limit
               (introsort_loop cmp depth_limit xs1 middle lst) first middle)
      else xs)"

text \<open>
  \<open>__final_insertion_sort\<close>: the elements are inserted one after the other into the
  sorted part to their left, each moving left past the elements that compare greater.
\<close>

definition linear_insert :: "('a \<Rightarrow> 'a \<Rightarrow> bool) \<Rightarrow> 'a list \<Rightarrow> 'a \<Rightarrow> 'a list" where
  "linear_insert cmp ys val =
     (let k = length (takeWhile (\<lambda>y. cmp val y) (rev ys))
      in take (length ys - k) ys @ val # drop (length ys - k) ys)"

definition insertion_sort :: "('a \<Rightarrow> 'a \<Rightarrow> bool) \<Rightarrow> 'a list \<Rightarrow> 'a list" where
  "insertion_sort cmp xs = foldl (linear_insert cmp) [] xs"

definition final_insertion_sort :: "('a \<Rightarrow> 'a \<Rightarrow> bool) \<Rightarrow> 'a list \<Rightarrow> 'a list" where
  "final_insertion_sort cmp xs =
     (if 16 < length xs
      then foldl (linear_insert cmp) (insertion_sort cmp (take 16 xs)) (drop 16 xs)
      else insertion_sort cmp xs)"

text \<open>\<open>__lg(n)\<close>, the integer part of the binary logarithm.\<close>

fun lg :: "nat \<Rightarrow> nat" where
  "lg n = (if n < 2 then 0 else Suc (lg (n div 2)))"

declare lg.simps [simp del]

definition std_sort :: "('a \<Rightarrow> 'a \<Rightarrow> bool) \<Rightarrow> 'a list \<Rightarrow> 'a list" where
  "std_sort cmp xs =
     (if xs = [] then []
      else final_insertion_sort cmp (introsort_loop cmp (lg (length xs) * 2) xs 0 (length xs)))"

definition key_value_comp :: "bool \<Rightarrow> fval \<times> nat \<Rightarrow> fval \<times> nat \<Rightarrow> bool" where
  "key_value_comp descending lhs rhs =
     (if descending then (fst lhs = NaN \<and> fst rhs \<noteq> NaN) \<or> flt (fst rhs) (fst lhs)
      else (fst lhs \<noteq> NaN \<and> fst rhs = NaN) \<or> flt (fst lhs) (fst rhs))"

definition cpu_argsort :: "bool \<Rightarrow> fval list \<Rightarrow> nat list" where
  "cpu_argsort descending xs =
     map snd (std_sort (key_value_comp descending) (zip xs [0..<length xs]))"

text \<open>
  A library to run \<open>get_samples\<close> on: the calls of inherited attributes as Python has
  them, the sort above, and \<open>F.softmax\<close> on tensors of single precision, which
  subtracts the largest logit of the row, takes the exponentials and divides them by
  their sum. Of the float arithmetic one effect is kept, the underflow: a result of
  magnitude at most \<open>2^-150\<close> is rounded to zero. Other rounding is not modelled.
\<close>

definition underflow :: "real \<Rightarrow> real" where
  "underflow y = (if \<bar>y\<bar> \<le> 1 / 2 ^ 150 then 0 else y)"

definition float_softmax_row :: "real list \<Rightarrow> real list" where
  "float_softmax_row r =
     (let max_input = Max (set r);
          e = map (\<lambda>x. underflow (exp (x - max_input))) r;
          z = sum_list e
      in map (\<lambda>y. underflow (y / z)) e)"

definition float_softmax :: "matrix \<Rightarrow> matrix" where
  "float_softmax output = map float_softmax_row output"

definition object_call :: "string \<Rightarrow> error option" where
  "object_call name = (if name = ''__subclasshook__'' then None else Some TypeError)"

definition cpu_library :: library where
  "cpu_library = \<lparr>softmax = float_softmax, argsort = cpu_argsort, inherited_call = object_call\<rparr>"

text \<open>
  A model to run \<open>get_samples\<close> on: every input is its own row of logits, and its
  feature row is the constant \<open>[1]\<close>.
\<close>

definition logits_model :: "real list model" where
  "logits_model data_x = (data_x, map (\<lambda>x. [1]) data_x)"

section \<open>The cycle controller: the epoch loop of \<open>main\<close> in \<open>train.py\<close>\<close>

text \<open>
  \<^verbatim>\<open>
  best_recall, best_report, last_best_epochs = 0, None, 0
  for epoch in range(args.start_epoch, args.epochs):
      train_loss = train(...)
      val_loss, val_report = validate(...)
      is_best = val_report['macro avg']['recall'] > best_recall
      last_best_epochs = 0 if is_best else last_best_epochs + 1
      if epoch > args.labeled_warmup_epochs and last_best_epochs > args.add_labeled_epochs:
          ... perform_sampling(...)
          current_labeled += args.add_labeled
          last_best_epochs = 0
      else:
          best_recall = val_report['macro avg']['recall'] if is_best else best_recall
          best_report = val_report if is_best else best_report
          best_model = deepcopy(model) if is_best else best_model
      save_checkpoint(...)
      if current_labeled > args.stop_labeled:
          break
  \<close>
  The recalls that validation reports, one per epoch run, are the input. The report and the
  model kept as best are named by the epoch they come from. Every epoch leaves a log entry:
  the state it started from, what it computed, and the state it left.
\<close>

record args =
  start_epoch :: int
  epochs :: int
  labeled_warmup_epochs :: int
  add_labeled_epochs :: int
  add_labeled :: real
  stop_labeled :: real

record cycle_state =
  best_recall :: real
  best_report :: "int option"
  last_best_epochs :: int
  current_labeled :: real

record epoch_log =
  epoch :: int
  recall :: real
  before :: cycle_state
  is_best :: bool
  counter :: int
  sampled :: bool
  after :: cycle_state

definition initial_state :: "real \<Rightarrow> cycle_state" where
  "initial_state start_labeled =
     \<lparr>best_recall = 0, best_report = None, last_best_epochs = 0,
      current_labeled = start_labeled\<rparr>"

definition epoch_body :: "args \<Rightarrow> int \<Rightarrow> real \<Rightarrow> cycle_state \<Rightarrow> epoch_log" where
  "epoch_body a ep r st =
     (let best = r > best_recall st;
          lbe = (if best then 0 else last_best_epochs st + 1);
          fire = (ep > labeled_warmup_epochs a \<and> lbe > add_labeled_epochs a);
          st' = (if fire
                 then st\<lparr>current_labeled := current_labeled st + add_labeled a,
                         last_best_epochs := 0\<rparr>
                 else st\<lparr>best_recall := (if best then r else best_recall st),
                         best_report := (if best then Some ep else best_report st),
                         last_best_epochs := lbe\<rparr>)
      in \<lparr>epoch = ep, recall = r, before = st, is_best = best, counter = lbe,
          sampled = fire, after = st'\<rparr>)"

fun main_loop :: "args \<Rightarrow> int \<Rightarrow> cycle_state \<Rightarrow> real list \<Rightarrow> epoch_log list" where
  "main_loop a ep st [] = []"
| "main_loop a ep st (r # rs) =
     (if ep \<ge> epochs a then []
      else let e = epoch_body a ep r st
           in if current_labeled (after e) > stop_labeled a then [e]
              else e # main_loop a (ep + 1) (after e) rs)"

definition main :: "args \<Rightarrow> real \<Rightarrow> real list \<Rightarrow> epoch_log list" where
  "main a start_labeled recalls = main_loop a (start_epoch a) (initial_state start_labeled) recalls"

text \<open>The state the loop ends in: the state after the last epoch run.\<close>

definition final_state :: "cycle_state \<Rightarrow> epoch_log list \<Rightarrow> cycle_state" where
  "final_state st es = (if es = [] then st else after (last es))"

text \<open>
  A log is linked when every epoch starts from the state the one before left, with the next
  epoch number.
\<close>

definition linked :: "epoch_log \<Rightarrow> epoch_log \<Rightarrow> bool" where
  "linked e e' \<longleftrightarrow> before e' = after e \<and> epoch e' = epoch e + 1"

text \<open>An epoch without an event: it brought no new best recall and sampling did not fire.\<close>

definition uneventful :: "epoch_log \<Rightarrow> bool" where
  "uneventful e \<longleftrightarrow> \<not> is_best e \<and> \<not> sampled e"

section \<open>Properties of the index sets\<close>

subsection \<open>What \<open>postprocess_indices\<close> computes\<close>

lemma norm_index_valid:
  "valid_position n i \<Longrightarrow> norm_index n i = Inr (position n i) \<and> position n i < n"
  by (auto simp: norm_index_def valid_position_def position_def)

lemma mask_clear_valid:
  "\<forall>i \<in> set sel. valid_position (length m) i \<Longrightarrow>
   mask_clear m sel =
     Inr (map (\<lambda>j. m ! j \<and> j \<notin> position (length m) ` set sel) [0..<length m])"
proof (induction sel arbitrary: m)
  case Nil
  then show ?case by (simp add: map_nth)
next
  case (Cons i rest)
  let ?n = "length m"
  let ?j = "position ?n i"
  from Cons.prems have v: "valid_position ?n i" by simp
  then have ni: "norm_index ?n i = Inr ?j" and lt: "?j < ?n"
    using norm_index_valid by blast+
  have rest: "\<forall>x \<in> set rest. valid_position (length (m[?j := False])) x"
    using Cons.prems by simp
  have "mask_clear (m[?j := False]) rest =
      Inr (map (\<lambda>k. (m[?j := False]) ! k \<and> k \<notin> position ?n ` set rest) [0..<?n])"
    using Cons.IH [OF rest] by simp
  also have "map (\<lambda>k. (m[?j := False]) ! k \<and> k \<notin> position ?n ` set rest) [0..<?n] =
      map (\<lambda>k. m ! k \<and> k \<notin> position ?n ` set (i # rest)) [0..<?n]"
    using lt by (auto simp: nth_list_update)
  finally show ?case using ni by simp
qed

lemma select_mask_map:
  "select_mask xs (map f [0..<length xs]) = map (nth xs) (filter f [0..<length xs])"
proof -
  have "zip xs (map f [0..<length xs]) = map (\<lambda>j. (xs ! j, f j)) [0..<length xs]"
    by (rule nth_equalityI) auto
  then show ?thesis
    by (simp add: select_mask_def filter_map comp_def)
qed

text \<open>
  Valid positions into an unlabeled sequence that has not exactly one entry: the mask is
  used as a mask.
\<close>

lemma postprocess_indices_valid:
  assumes "\<forall>i \<in> set sel. valid_position (length U) i" and "length U \<noteq> 1"
  shows "postprocess_indices L U sel =
     Inr (L @ map (nth U) (filter (\<lambda>j. j \<in> position (length U) ` set sel) [0..<length U]),
          map (nth U) (filter (\<lambda>j. j \<notin> position (length U) ` set sel) [0..<length U]))"
proof -
  let ?n = "length U"
  let ?P = "position ?n ` set sel"
  have m: "mask_clear (replicate ?n True) sel = Inr (map (\<lambda>j. j \<notin> ?P) [0..<?n])"
    using mask_clear_valid [of sel "replicate ?n True"] assms(1) by (simp cong: map_cong)
  have a: "index_by_mask U (map (\<lambda>j. j \<notin> ?P) [0..<?n]) =
      Inr (map (nth U) (filter (\<lambda>j. j \<notin> ?P) [0..<?n]))"
    using assms(2) by (simp add: index_by_mask_def select_mask_map)
  have "select_mask U (map Not (map (\<lambda>j. j \<notin> ?P) [0..<?n])) =
      map (nth U) (filter (\<lambda>j. j \<in> ?P) [0..<?n])"
    using select_mask_map [of U "\<lambda>j. j \<in> ?P"] by (simp add: comp_def)
  then have b: "index_by_mask U (map Not (map (\<lambda>j. j \<notin> ?P) [0..<?n])) =
      Inr (map (nth U) (filter (\<lambda>j. j \<in> ?P) [0..<?n]))"
    using assms(2) by (simp add: index_by_mask_def)
  show ?thesis
    unfolding postprocess_indices_def m using a b by simp
qed

text \<open>
  An unlabeled sequence of exactly one entry: the mask has one element and is read as a
  position. Of the mask and its complement one is \<open>[True]\<close>, the position \<open>1\<close>, which
  an array of one entry does not have. Whatever the selection, the call raises IndexError.
\<close>

lemma mask_clear_cases:
  "mask_clear m sel = Inl IndexError \<or>
   (\<exists>m'. mask_clear m sel = Inr m' \<and> length m' = length m)"
proof (induction sel arbitrary: m)
  case Nil
  then show ?case by simp
next
  case (Cons i rest)
  show ?case
  proof (cases "norm_index (length m) i")
    case (Inl e)
    then have "e = IndexError"
      by (simp add: norm_index_def split: if_splits)
    with Inl show ?thesis by simp
  next
    case (Inr j)
    then show ?thesis
      using Cons.IH [of "m[j := False]"] by simp
  qed
qed

lemma postprocess_indices_one_entry:
  assumes "length U = 1"
  shows "postprocess_indices L U sel = Inl IndexError"
proof -
  from mask_clear_cases [of "replicate (length U) True" sel]
  consider "mask_clear (replicate (length U) True) sel = Inl IndexError"
    | m' where "mask_clear (replicate (length U) True) sel = Inr m'" "length m' = length U"
    by auto
  then show ?thesis
  proof cases
    case 1
    then show ?thesis by (simp add: postprocess_indices_def)
  next
    case 2
    then obtain b where b: "m' = [b]"
      using assms by (cases m') auto
    show ?thesis
      using assms 2(1) by (cases b) (simp_all add: postprocess_indices_def b index_by_mask_def)
  qed
qed

lemma filter_upt_card:
  assumes "P \<subseteq> {..<n}"
  shows "length (filter (\<lambda>j. j \<in> P) [0..<n]) = card P"
proof -
  have "length (filter (\<lambda>j. j \<in> P) [0..<n]) = card ({j. j \<in> P} \<inter> set [0..<n])"
    by (rule distinct_length_filter) simp
  also have "{j. j \<in> P} \<inter> set [0..<n] = P"
    using assms by auto
  finally show ?thesis .
qed

lemma filter_upt_card_compl:
  assumes "P \<subseteq> {..<n}"
  shows "length (filter (\<lambda>j. j \<notin> P) [0..<n]) = n - card P"
proof -
  have "length (filter (\<lambda>j. j \<in> P) [0..<n]) + length (filter (\<lambda>j. j \<notin> P) [0..<n]) = n"
    using sum_length_filter_compl [of "\<lambda>j. j \<in> P" "[0..<n]"] by simp
  then show ?thesis
    using filter_upt_card [OF assms] by simp
qed

lemma split_disjoint:
  assumes "distinct U" and "set L \<inter> set U = {}"
  shows "set (L @ map (nth U) (filter (\<lambda>j. j \<in> P) [0..<length U])) \<inter>
         set (map (nth U) (filter (\<lambda>j. j \<notin> P) [0..<length U])) = {}"
proof -
  have "a = b" if "a < length U" "b < length U" "U ! a = U ! b" for a b
    using that assms(1) by (simp add: nth_eq_iff_index_eq)
  moreover have "U ! b \<notin> set L" if "b < length U" for b
    using that assms(2) by (metis disjoint_iff nth_mem)
  ultimately show ?thesis
    by (auto simp: disjoint_iff)
qed

lemma mset_map_filter_compl:
  "mset (map f (filter Q xs)) + mset (map f (filter (\<lambda>x. \<not> Q x) xs)) = mset (map f xs)"
  by (induction xs) simp_all

lemma split_mset:
  "mset (L @ map (nth U) (filter (\<lambda>j. j \<in> P) [0..<length U])) +
   mset (map (nth U) (filter (\<lambda>j. j \<notin> P) [0..<length U])) = mset L + mset U"
proof -
  have "mset (map (nth U) (filter (\<lambda>j. j \<in> P) [0..<length U])) +
        mset (map (nth U) (filter (\<lambda>j. j \<notin> P) [0..<length U])) =
        mset (map (nth U) [0..<length U])"
    by (rule mset_map_filter_compl)
  then show ?thesis
    by (simp add: map_nth)
qed

lemma filter_upt_sort:
  assumes "distinct ps" and "set ps \<subseteq> {..<n}"
  shows "filter (\<lambda>j. j \<in> set ps) [0..<n] = sort ps"
proof (rule sorted_distinct_set_unique)
  show "set (filter (\<lambda>j. j \<in> set ps) [0..<n]) = set (sort ps)"
    using assms(2) by auto
qed (use assms in \<open>simp_all add: sorted_wrt_filter\<close>)

text \<open>Positions that are in range without wrapping: \<open>0 \<le> i < n\<close>.\<close>

lemma nonneg_positions:
  assumes "\<forall>i \<in> set sel. 0 \<le> i \<and> i < int n"
  shows "\<forall>i \<in> set sel. valid_position n i"
    and "position n ` set sel = nat ` set sel"
    and "nat ` set sel \<subseteq> {..<n}"
    and "inj_on nat (set sel)"
    and "card (nat ` set sel) = card (set sel)"
    and "j \<in> nat ` set sel \<longleftrightarrow> int j \<in> set sel"
proof -
  show "\<forall>i \<in> set sel. valid_position n i"
    using assms by (auto simp: valid_position_def)
  show "position n ` set sel = nat ` set sel"
    using assms by (auto simp: position_def intro!: image_cong)
  show "nat ` set sel \<subseteq> {..<n}"
    using assms by auto
  show inj: "inj_on nat (set sel)"
    by (rule inj_onI) (use assms in \<open>simp add: eq_nat_nat_iff\<close>)
  show "card (nat ` set sel) = card (set sel)"
    using inj by (rule card_image)
  show "j \<in> nat ` set sel \<longleftrightarrow> int j \<in> set sel"
    using assms by force
qed

text \<open>
  Promotion where the unlabeled sequence has not exactly one entry. Let \<open>labeled\<close> and
  \<open>unlabeled\<close> be index sequences with no dataset index in both and none twice in
  \<open>unlabeled\<close> (they list two disjoint sets of indices), and \<open>sel\<close> be \<open>k\<close> pairwise
  distinct positions with \<open>0 \<le> i < len(unlabeled)\<close>. Then \<open>postprocess_indices\<close>
  returns; the new labeled sequence has \<open>len(labeled) + k\<close> entries and the new unlabeled
  one \<open>len(unlabeled) - k\<close>; the two share no index; as multisets they add up to the two
  inputs; the new labeled sequence is \<open>labeled\<close> followed by the entries of \<open>unlabeled\<close> at
  the selected positions, in increasing order of position; the new unlabeled sequence is
  the entries of \<open>unlabeled\<close> at the other positions, in their order. In particular
  \<open>labeled = [0,1,2]\<close>, \<open>unlabeled = [3,4,5,6]\<close> and position \<open>1\<close> give
  \<open>[0,1,2,4]\<close> and \<open>[3,5,6]\<close>.
\<close>

lemma postprocess_indices_promotes:
  assumes "distinct unlabeled"
    and "set labeled \<inter> set unlabeled = {}"
    and "distinct sel"
    and "\<forall>i \<in> set sel. 0 \<le> i \<and> i < int (length unlabeled)"
    and "length unlabeled \<noteq> 1"
  shows "(\<exists>new_labeled new_unlabeled.
      postprocess_indices labeled unlabeled sel = Inr (new_labeled, new_unlabeled) \<and>
      length new_labeled = length labeled + length sel \<and>
      length new_unlabeled = length unlabeled - length sel \<and>
      set new_labeled \<inter> set new_unlabeled = {} \<and>
      mset new_labeled + mset new_unlabeled = mset labeled + mset unlabeled \<and>
      new_labeled = labeled @ map (\<lambda>j. unlabeled ! j) (sort (map nat sel)) \<and>
      new_unlabeled =
        map (\<lambda>j. unlabeled ! j) (filter (\<lambda>j. int j \<notin> set sel) [0..<length unlabeled])) \<and>
    postprocess_indices [0, 1, 2] [3, 4, 5, 6] [1] = Inr ([0, 1, 2, 4], [3, 5, 6])"
proof
  let ?n = "length unlabeled"
  let ?P = "position ?n ` set sel"
  note pos = nonneg_positions [OF assms(4)]
  have P: "?P = nat ` set sel"
    by (rule pos(2))
  have sub: "?P \<subseteq> {..<?n}"
    unfolding P by (rule pos(3))
  have card: "card ?P = length sel"
    unfolding P using pos(5) assms(3) by (simp add: distinct_card)
  have dps: "distinct (map nat sel)"
    using pos(4) assms(3) by (simp add: distinct_map)
  have srt: "filter (\<lambda>j. j \<in> ?P) [0..<?n] = sort (map nat sel)"
    using filter_upt_sort [of "map nat sel" ?n] dps sub unfolding P by simp
  have mem: "j \<notin> ?P \<longleftrightarrow> int j \<notin> set sel" for j
    unfolding P using pos(6) by simp
  show "\<exists>new_labeled new_unlabeled.
      postprocess_indices labeled unlabeled sel = Inr (new_labeled, new_unlabeled) \<and>
      length new_labeled = length labeled + length sel \<and>
      length new_unlabeled = length unlabeled - length sel \<and>
      set new_labeled \<inter> set new_unlabeled = {} \<and>
      mset new_labeled + mset new_unlabeled = mset labeled + mset unlabeled \<and>
      new_labeled = labeled @ map (\<lambda>j. unlabeled ! j) (sort (map nat sel)) \<and>
      new_unlabeled =
        map (\<lambda>j. unlabeled ! j) (filter (\<lambda>j. int j \<notin> set sel) [0..<length unlabeled])"
  proof (intro exI conjI)
    show "postprocess_indices labeled unlabeled sel =
        Inr (labeled @ map (nth unlabeled) (filter (\<lambda>j. j \<in> ?P) [0..<?n]),
             map (nth unlabeled) (filter (\<lambda>j. j \<notin> ?P) [0..<?n]))"
      by (rule postprocess_indices_valid [OF pos(1) assms(5)])
    show "length (labeled @ map (nth unlabeled) (filter (\<lambda>j. j \<in> ?P) [0..<?n])) =
        length labeled + length sel"
      using filter_upt_card [OF sub] card by simp
    show "length (map (nth unlabeled) (filter (\<lambda>j. j \<notin> ?P) [0..<?n])) = ?n - length sel"
      using filter_upt_card_compl [OF sub] card by simp
    show "set (labeled @ map (nth unlabeled) (filter (\<lambda>j. j \<in> ?P) [0..<?n])) \<inter>
        set (map (nth unlabeled) (filter (\<lambda>j. j \<notin> ?P) [0..<?n])) = {}"
      by (rule split_disjoint [OF assms(1,2)])
    show "mset (labeled @ map (nth unlabeled) (filter (\<lambda>j. j \<in> ?P) [0..<?n])) +
        mset (map (nth unlabeled) (filter (\<lambda>j. j \<notin> ?P) [0..<?n])) =
        mset labeled + mset unlabeled"
      by (rule split_mset)
    show "labeled @ map (nth unlabeled) (filter (\<lambda>j. j \<in> ?P) [0..<?n]) =
        labeled @ map (\<lambda>j. unlabeled ! j) (sort (map nat sel))"
      using srt by simp
    show "map (nth unlabeled) (filter (\<lambda>j. j \<notin> ?P) [0..<?n]) =
        map (\<lambda>j. unlabeled ! j) (filter (\<lambda>j. int j \<notin> set sel) [0..<?n])"
      using mem by simp
  qed
next
  show "postprocess_indices [0, 1, 2] [3, 4, 5, 6] [1] = Inr ([0, 1, 2, 4], [3, 5, 6])"
    by (simp add: postprocess_indices_def norm_index_def index_by_mask_def select_mask_def)
qed

lemma postprocess_indices_promotes_example:
  "distinct [3, 4, 5, 6 :: int] \<and> set [0, 1, 2] \<inter> set [3, 4, 5, 6 :: int] = {} \<and>
   distinct [3, 0 :: int] \<and> list_all (\<lambda>i. 0 \<le> i \<and> i < int (length [3, 4, 5, 6 :: int])) [3, 0] \<and>
   postprocess_indices [0, 1, 2] [3, 4, 5, 6] [3, 0] = Inr ([0, 1, 2, 3, 6], [4, 5])"
proof -
  have a: "distinct [3, 4, 5, 6 :: int]" by simp
  have b: "set [0, 1, 2] \<inter> set [3, 4, 5, 6 :: int] = {}" by simp
  have c: "distinct [3, 0 :: int]" by simp
  have d: "\<forall>i \<in> set [3, 0 :: int]. 0 \<le> i \<and> i < int (length [3, 4, 5, 6 :: int])" by simp
  have e: "length [3, 4, 5, 6 :: int] \<noteq> 1" by simp
  from postprocess_indices_promotes [OF a b c d e]
  have "postprocess_indices [0, 1, 2] [3, 4, 5, 6] [3, 0] =
      Inr ([0, 1, 2] @ map (\<lambda>j. [3, 4, 5, 6 :: int] ! j) (sort (map nat [3, 0])),
           map (\<lambda>j. [3, 4, 5, 6 :: int] ! j)
             (filter (\<lambda>j. int j \<notin> set [3, 0]) [0..<length [3, 4, 5, 6 :: int]]))"
    by auto
  also have "sort (map nat [3, 0]) = [0, 3]" by simp
  also have "filter (\<lambda>j. int j \<notin> set [3, 0]) [0..<length [3, 4, 5, 6 :: int]] = [1, 2]"
    by (simp add: upt_rec)
  finally show ?thesis using a b c d by simp
qed

text \<open>
  Repeated positions, again where the unlabeled sequence has not exactly one entry. With
  the same index sequences and positions \<open>0 \<le> i < len(unlabeled)\<close> that may repeat,
  \<open>postprocess_indices\<close> returns (it raises nothing); the labeled sequence grows by
  the number of distinct selected positions and the unlabeled one shrinks by it; the two
  outputs share no index; and when a position does repeat, the labeled sequence grows by
  less than \<open>len(samples_indices)\<close>.
\<close>

lemma postprocess_indices_duplicates:
  assumes "distinct unlabeled"
    and "set labeled \<inter> set unlabeled = {}"
    and "\<forall>i \<in> set sel. 0 \<le> i \<and> i < int (length unlabeled)"
    and "length unlabeled \<noteq> 1"
  shows "\<exists>new_labeled new_unlabeled.
      postprocess_indices labeled unlabeled sel = Inr (new_labeled, new_unlabeled) \<and>
      length new_labeled = length labeled + card (set sel) \<and>
      length new_unlabeled = length unlabeled - card (set sel) \<and>
      set new_labeled \<inter> set new_unlabeled = {} \<and>
      (\<not> distinct sel \<longrightarrow> length new_labeled < length labeled + length sel)"
proof -
  let ?n = "length unlabeled"
  let ?P = "position ?n ` set sel"
  let ?nl = "labeled @ map (nth unlabeled) (filter (\<lambda>j. j \<in> ?P) [0..<?n])"
  let ?nu = "map (nth unlabeled) (filter (\<lambda>j. j \<notin> ?P) [0..<?n])"
  note pos = nonneg_positions [OF assms(3)]
  have sub: "?P \<subseteq> {..<?n}"
    using pos(2,3) by simp
  have card: "card ?P = card (set sel)"
    using pos(2,5) by simp
  have run: "postprocess_indices labeled unlabeled sel = Inr (?nl, ?nu)"
    by (rule postprocess_indices_valid [OF pos(1) assms(4)])
  have len1: "length ?nl = length labeled + card (set sel)"
    using filter_upt_card [OF sub] card by simp
  have len2: "length ?nu = ?n - card (set sel)"
    using filter_upt_card_compl [OF sub] card by simp
  have disj: "set ?nl \<inter> set ?nu = {}"
    by (rule split_disjoint [OF assms(1,2)])
  have less: "length ?nl < length labeled + length sel" if "\<not> distinct sel"
  proof -
    have "card (set sel) \<noteq> length sel"
      using that card_distinct by blast
    then have "card (set sel) < length sel"
      using card_length [of sel] by simp
    then show ?thesis
      using len1 by simp
  qed
  show ?thesis
    using run len1 len2 disj less by blast
qed

lemma postprocess_indices_duplicates_example:
  "distinct [3, 4, 5, 6 :: int] \<and> set [0, 1, 2] \<inter> set [3, 4, 5, 6 :: int] = {} \<and>
   list_all (\<lambda>i. 0 \<le> i \<and> i < int (length [3, 4, 5, 6 :: int])) [1, 1] \<and>
   \<not> distinct [1, 1 :: int] \<and>
   (\<exists>new_labeled new_unlabeled.
      postprocess_indices [0, 1, 2] [3, 4, 5, 6] [1, 1] = Inr (new_labeled, new_unlabeled) \<and>
      length new_labeled = 4 \<and> length new_unlabeled = 3 \<and>
      set new_labeled \<inter> set new_unlabeled = {})"
proof -
  have a: "distinct [3, 4, 5, 6 :: int]" by simp
  have b: "set [0, 1, 2] \<inter> set [3, 4, 5, 6 :: int] = {}" by simp
  have c: "\<forall>i \<in> set [1, 1 :: int]. 0 \<le> i \<and> i < int (length [3, 4, 5, 6 :: int])" by simp
  have d: "card (set [1, 1 :: int]) = 1" by simp
  have e: "length [3, 4, 5, 6 :: int] \<noteq> 1" by simp
  from postprocess_indices_duplicates [OF a b c e] a b c show ?thesis
    unfolding d by auto
qed


text \<open>
  C1. The promotion the claim describes is not what the code does when one unlabeled index
  is left. With \<open>labeled = [0,1,2]\<close>, \<open>unlabeled = [3]\<close> and the selected position
  \<open>0\<close> the index sequences are disjoint and the position is distinct and in range, so
  the claim promises the result \<open>([0,1,2,3], [])\<close>; \<open>postprocess_indices\<close> raises
  IndexError.
\<close>

theorem postprocess_indices_last_unlabeled:
  "distinct [3 :: int] \<and> set [0, 1, 2] \<inter> set [3 :: int] = {} \<and> distinct [0 :: int] \<and>
   list_all (\<lambda>i. 0 \<le> i \<and> i < int (length [3 :: int])) [0] \<and>
   postprocess_indices [0, 1, 2] [3] [0] = Inl IndexError"
  by (simp add: postprocess_indices_def norm_index_def index_by_mask_def)

text \<open>
  C9. The same with a repeated position: \<open>labeled = [0,1,2]\<close>, \<open>unlabeled = [3]\<close> and
  the selected positions \<open>[0, 0]\<close>, both in range. The claim promises that no error is
  raised and that the labeled sequence grows by one; \<open>postprocess_indices\<close> raises
  IndexError.
\<close>

theorem postprocess_indices_last_unlabeled_repeated:
  "distinct [3 :: int] \<and> set [0, 1, 2] \<inter> set [3 :: int] = {} \<and> \<not> distinct [0, 0 :: int] \<and>
   list_all (\<lambda>i. 0 \<le> i \<and> i < int (length [3 :: int])) [0, 0] \<and>
   postprocess_indices [0, 1, 2] [3] [0, 0] = Inl IndexError"
  by (simp add: postprocess_indices_def norm_index_def index_by_mask_def)
section \<open>Properties of random subsampling\<close>

text \<open>
  The positions drawn do not depend on the seed given to \<open>main\<close>; they depend on the
  entropy the operating system hands to \<open>default_rng()\<close>.
\<close>

lemma stratified_random_sampling_seed:
  "stratified_random_sampling choice (env\<lparr>global_seed := s\<rparr>) unlabeled number =
   stratified_random_sampling choice env unlabeled number"
  by (simp add: stratified_random_sampling_def default_rng_def)

lemma rotating_choice_contract: "choice_contract rotating_choice"
  unfolding choice_contract_def rotating_choice_def
  by (auto dest: in_set_takeD)

lemma choice_contractD:
  assumes "choice_contract choice" and "k \<le> n"
  shows "length (choice g n k) = k" and "distinct (choice g n k)"
    and "set (choice g n k) \<subseteq> {..<n}"
  using assms by (simp_all add: choice_contract_def)

text \<open>
  For \<open>0 \<le> number \<le> len(unlabeled_indices)\<close> and a \<open>choice\<close> that does what
  NumPy documents, the function returns \<open>number\<close> pairwise distinct positions into
  \<open>unlabeled_indices\<close>, and a permutation of all positions when
  \<open>number = len(unlabeled_indices)\<close>.
\<close>

lemma stratified_random_sampling_positions:
  assumes "choice_contract choice" and "0 \<le> number" and "number \<le> int (length unlabeled)"
  shows "\<exists>ps. stratified_random_sampling choice env unlabeled number = Inr ps \<and>
      length ps = nat number \<and> distinct ps \<and> set ps \<subseteq> {..<length unlabeled} \<and>
      (number = int (length unlabeled) \<longrightarrow> mset ps = mset [0..<length unlabeled])"
proof -
  let ?n = "length unlabeled"
  let ?ps = "choice (default_rng env) ?n (nat number)"
  have k: "nat number \<le> ?n"
    using assms(2,3) by simp
  have run: "stratified_random_sampling choice env unlabeled number = Inr ?ps"
    using assms(2,3) by (simp add: stratified_random_sampling_def)
  have c: "length ?ps = nat number" "distinct ?ps" "set ?ps \<subseteq> {..<?n}"
    using choice_contractD [OF assms(1) k] by simp_all
  have "mset ?ps = mset [0..<?n]" if "number = int ?n"
  proof -
    have "card (set ?ps) = ?n"
      using c(1,2) that by (simp add: distinct_card)
    then have "set ?ps = {..<?n}"
      using c(3) card_subset_eq [of "{..<?n}" "set ?ps"] by simp
    then have eq: "set ?ps = set [0..<?n]"
      by (simp add: lessThan_atLeast0)
    show ?thesis
      using set_eq_iff_mset_eq_distinct [OF c(2) distinct_upt, of 0 ?n] eq by blast
  qed
  with run c show ?thesis by blast
qed

text \<open>
  C5. Reproducibility under a fixed seed fails: two calls in runs started with the same
  seed \<open>9999\<close>, on the same unlabeled sequence and the same \<open>number\<close>, return
  different positions when the operating system hands \<open>default_rng()\<close> different
  entropy.
\<close>

theorem stratified_random_sampling_not_reproducible:
  "stratified_random_sampling rotating_choice \<lparr>global_seed = 9999, os_entropy = 0\<rparr> [10, 11, 12, 13] 2
     = Inr [0, 1] \<and>
   stratified_random_sampling rotating_choice \<lparr>global_seed = 9999, os_entropy = 1\<rparr> [10, 11, 12, 13] 2
     = Inr [1, 2]"
  by (simp add: stratified_random_sampling_def default_rng_def rotating_choice_def upt_rec)

section \<open>Properties of the sampler object\<close>

lemma class_attribute_None:
  "class_attribute name = None \<longleftrightarrow>
     name \<notin> set scoring_names \<and> name \<noteq> ''__init__'' \<and> name \<noteq> ''get_samples''"
  by (auto simp: class_attribute_def scoring_names_def)

lemma construction_fails_iff:
  "(\<exists>e. UncertaintySampling inherited name verb = Inl e) \<longleftrightarrow>
     name \<notin> set scoring_names \<and> name \<noteq> ''__init__'' \<and> name \<noteq> ''get_samples'' \<and>
     name \<noteq> ''uncertainty_sampling_method'' \<and> name \<notin> inherited"
  using class_attribute_None [of name]
  by (auto simp: UncertaintySampling_def getattr_def split: option.splits sum.splits)

lemma construction_error:
  "UncertaintySampling inherited name verb = Inl e \<Longrightarrow> e = AttributeError"
  by (auto simp: UncertaintySampling_def getattr_def split: option.splits sum.splits if_splits)

lemma class_attribute_scoring:
  "class_attribute ''least_confidence'' = Some Least_confidence"
  "class_attribute ''margin_confidence'' = Some Margin_confidence"
  "class_attribute ''ratio_confidence'' = Some Ratio_confidence"
  "class_attribute ''entropy_based'' = Some Entropy_based"
  "class_attribute ''density_weighted'' = Some Density_weighted"
  "class_attribute ''get_samples'' = Some Get_samples"
  by (simp_all add: class_attribute_def)

lemma construction_class_attribute:
  assumes "class_attribute name = Some m"
  shows "UncertaintySampling inherited name verb =
     Inr \<lparr>uncertainty_sampling_method = name, method_fn = m, verbose = verb\<rparr>"
proof -
  have "name \<noteq> ''uncertainty_sampling_method''"
    using assms by (auto simp: class_attribute_def split: if_splits)
  then have "getattr inherited name name = Inr m"
    using assms by (simp add: getattr_def)
  then show ?thesis
    by (simp add: UncertaintySampling_def)
qed

text \<open>
  C8, as stated, fails: \<open>get_samples\<close> is not one of the scoring functions, yet
  \<open>UncertaintySampling('get_samples')\<close> is constructed without an error, \<open>getattr\<close>
  finding the bound method of that name.
\<close>

theorem construction_accepts_get_samples:
  "''get_samples'' \<notin> set scoring_names \<and>
   UncertaintySampling {} ''get_samples'' False =
     Inr \<lparr>uncertainty_sampling_method = ''get_samples'', method_fn = Get_samples,
          verbose = False\<rparr>"
proof
  show "''get_samples'' \<notin> set scoring_names"
    by (simp add: scoring_names_def)
  show "UncertaintySampling {} ''get_samples'' False =
     Inr \<lparr>uncertainty_sampling_method = ''get_samples'', method_fn = Get_samples,
          verbose = False\<rparr>"
    by (rule construction_class_attribute [OF class_attribute_scoring(6)])
qed

text \<open>
  C8, amended. Construction fails exactly when the name is not an attribute of the object:
  none of the five scoring functions, not \<open>__init__\<close>, \<open>get_samples\<close> or
  \<open>uncertainty_sampling_method\<close>, and not a name every object inherits. The failure is
  an AttributeError. With each of the five scoring names construction succeeds and
  \<open>self.method\<close> is the scoring function of that name.
\<close>

theorem construction_checks_attribute:
  "((\<exists>e. UncertaintySampling inherited name verb = Inl e) \<longleftrightarrow>
      name \<notin> set scoring_names \<and> name \<noteq> ''__init__'' \<and> name \<noteq> ''get_samples'' \<and>
      name \<noteq> ''uncertainty_sampling_method'' \<and> name \<notin> inherited) \<and>
   (\<forall>e. UncertaintySampling inherited name verb = Inl e \<longrightarrow> e = AttributeError) \<and>
   (name \<in> set scoring_names \<longrightarrow>
      (\<exists>m. UncertaintySampling inherited name verb =
           Inr \<lparr>uncertainty_sampling_method = name, method_fn = m, verbose = verb\<rparr> \<and>
         class_attribute name = Some m \<and>
         m \<in> {Least_confidence, Margin_confidence, Ratio_confidence, Entropy_based,
              Density_weighted}))"
proof (intro conjI allI impI)
  show "(\<exists>e. UncertaintySampling inherited name verb = Inl e) \<longleftrightarrow>
      name \<notin> set scoring_names \<and> name \<noteq> ''__init__'' \<and> name \<noteq> ''get_samples'' \<and>
      name \<noteq> ''uncertainty_sampling_method'' \<and> name \<notin> inherited"
    by (rule construction_fails_iff)
next
  fix e
  assume "UncertaintySampling inherited name verb = Inl e"
  then show "e = AttributeError"
    by (rule construction_error)
next
  assume "name \<in> set scoring_names"
  then have "name = ''least_confidence'' \<or> name = ''margin_confidence'' \<or>
      name = ''ratio_confidence'' \<or> name = ''entropy_based'' \<or> name = ''density_weighted''"
    unfolding scoring_names_def by simp
  then obtain m where m: "class_attribute name = Some m"
    and sc: "m \<in> {Least_confidence, Margin_confidence, Ratio_confidence, Entropy_based,
              Density_weighted}"
    using class_attribute_scoring(1-5) by fastforce
  show "\<exists>m. UncertaintySampling inherited name verb =
           Inr \<lparr>uncertainty_sampling_method = name, method_fn = m, verbose = verb\<rparr> \<and>
         class_attribute name = Some m \<and>
         m \<in> {Least_confidence, Margin_confidence, Ratio_confidence, Entropy_based,
              Density_weighted}"
    by (intro exI conjI) (rule construction_class_attribute [OF m], rule m, rule sc)
qed

theorem construction_checks_attribute_witness:
  "UncertaintySampling {''__class__'', ''__doc__''} ''nearest_neighbour'' True = Inl AttributeError \<and>
   (\<exists>m. UncertaintySampling {''__class__'', ''__doc__''} ''margin_confidence'' True =
      Inr \<lparr>uncertainty_sampling_method = ''margin_confidence'', method_fn = m, verbose = True\<rparr> \<and>
      class_attribute ''margin_confidence'' = Some m)"
proof
  let ?inh = "{''__class__'', ''__doc__''}"
  note t = construction_checks_attribute [of ?inh "''nearest_neighbour''" True]
  have n1: "''nearest_neighbour'' \<notin> set scoring_names"
    by (simp add: scoring_names_def)
  have n2: "''nearest_neighbour'' \<noteq> ''__init__''"
    and n3: "''nearest_neighbour'' \<noteq> ''get_samples''"
    and n4: "''nearest_neighbour'' \<noteq> ''uncertainty_sampling_method''"
    and n5: "''nearest_neighbour'' \<notin> ?inh"
    by simp_all
  have "\<exists>e. UncertaintySampling ?inh ''nearest_neighbour'' True = Inl e"
    by (rule iffD2 [OF conjunct1 [OF t]]) (intro conjI n1 n2 n3 n4 n5)
  then obtain e where e: "UncertaintySampling ?inh ''nearest_neighbour'' True = Inl e" ..
  have "e = AttributeError"
    by (rule mp [OF spec [OF conjunct1 [OF conjunct2 [OF t]]] e])
  with e show "UncertaintySampling ?inh ''nearest_neighbour'' True = Inl AttributeError"
    by simp
next
  let ?inh = "{''__class__'', ''__doc__''}"
  note t = construction_checks_attribute [of ?inh "''margin_confidence''" True]
  have c: "''margin_confidence'' \<in> set scoring_names"
    by (simp add: scoring_names_def)
  from mp [OF conjunct2 [OF conjunct2 [OF t]] c]
  obtain m where m: "UncertaintySampling ?inh ''margin_confidence'' True =
      Inr \<lparr>uncertainty_sampling_method = ''margin_confidence'', method_fn = m, verbose = True\<rparr>"
    "class_attribute ''margin_confidence'' = Some m"
    by (elim exE conjE)
  show "\<exists>m. UncertaintySampling ?inh ''margin_confidence'' True =
      Inr \<lparr>uncertainty_sampling_method = ''margin_confidence'', method_fn = m, verbose = True\<rparr> \<and>
      class_attribute ''margin_confidence'' = Some m"
    by (intro exI conjI) (rule m(1), rule m(2))
qed

section \<open>Properties of the scoring functions\<close>

lemma traverse_map:
  "(\<forall>x \<in> set xs. f x = Inr (g x)) \<Longrightarrow> traverse f xs = Inr (map g xs)"
  by (induction xs) simp_all

lemma traverse_length:
  "traverse f xs = Inr ys \<Longrightarrow> length ys = length xs"
  by (induction xs arbitrary: ys) (auto split: sum.splits)

text \<open>The largest entry of a row is the last one of the sorted row.\<close>

lemma sorted_top:
  fixes xs :: "real list"
  assumes "xs \<noteq> []"
  shows "Max (set xs) = sort xs ! (length xs - 1)"
proof (rule Max_eqI)
  let ?s = "sort xs"
  have len: "length ?s = length xs" by simp
  have pos: "length xs - 1 < length ?s"
    using assms by (cases xs) simp_all
  show "finite (set xs)" by simp
  show "?s ! (length xs - 1) \<in> set xs"
    using nth_mem [OF pos] by simp
  fix y
  assume "y \<in> set xs"
  then have "y \<in> set ?s" by simp
  then obtain i where i: "i < length ?s" "?s ! i = y"
    by (metis in_set_conv_nth)
  have "?s ! i \<le> ?s ! (length xs - 1)"
    using sorted_nth_mono [of ?s i "length xs - 1"] i(1) pos by simp
  with i(2) show "y \<le> ?s ! (length xs - 1)" by simp
qed

lemma top_two_Inr:
  assumes "top_two r = Inr (a, b)"
  shows "2 \<le> length r" and "a = sort r ! (length r - 1)" and "b = sort r ! (length r - 2)"
    and "b \<le> a" and "row_max r = Inr a"
proof -
  show len: "2 \<le> length r"
    using assms by (simp add: top_two_def Let_def split: if_splits)
  show a: "a = sort r ! (length r - 1)" and b: "b = sort r ! (length r - 2)"
    using assms by (simp_all add: top_two_def Let_def split: if_splits)
  show "b \<le> a"
    unfolding a b using sorted_nth_mono [of "sort r" "length r - 2" "length r - 1"] len by simp
  have "r \<noteq> []" using len by auto
  then show "row_max r = Inr a"
    unfolding a by (simp add: row_max_def sorted_top)
qed

lemma margin_row_top: "top_two r = Inr (a, b) \<Longrightarrow> margin_row r = Inr (Fin (a - b))"
  by (simp add: margin_row_def)

lemma ratio_row_top:
  "top_two r = Inr (a, b) \<Longrightarrow> b \<noteq> 0 \<Longrightarrow> ratio_row r = Inr (Fin (a / b))"
  by (simp add: ratio_row_def)

text \<open>
  C6, amended. Let \<open>p\<close> and \<open>q\<close> have at least two classes, with largest and second
  largest entries \<open>p1, p2\<close> and \<open>q1, q2\<close>. If the largest entry of \<open>p\<close> is strictly
  larger (\<open>q1 < p1\<close>) and its second largest is positive and no larger
  (\<open>0 < p2 \<le> q2\<close>), then \<open>least_confidence\<close>, \<open>margin_confidence\<close> and
  \<open>ratio_confidence\<close> all give \<open>p\<close> the strictly higher score, each score a number.
\<close>

theorem confidence_scores_agree:
  assumes "top_two p = Inr (p1, p2)" and "top_two q = Inr (q1, q2)"
    and "q1 < p1" and "p2 \<le> q2" and "0 < p2"
  shows "\<exists>lp lq mp mq rp rq.
      least_confidence [p, q] feat ft = Inr [Fin lp, Fin lq] \<and> lq < lp \<and>
      margin_confidence [p, q] feat ft = Inr [Fin mp, Fin mq] \<and> mq < mp \<and>
      ratio_confidence [p, q] feat ft = Inr [Fin rp, Fin rq] \<and> rq < rp"
proof -
  note tp = top_two_Inr [OF assms(1)] and tq = top_two_Inr [OF assms(2)]
  have q2: "0 < q2" using assms(4,5) by simp
  have q1: "0 < q1" using q2 tq(4) by simp
  have lc: "least_confidence [p, q] feat ft = Inr [Fin p1, Fin q1]"
    by (simp add: least_confidence_def tp(5) tq(5))
  have mc: "margin_confidence [p, q] feat ft = Inr [Fin (p1 - p2), Fin (q1 - q2)]"
    by (simp add: margin_confidence_def margin_row_top [OF assms(1)] margin_row_top [OF assms(2)])
  have rc: "ratio_confidence [p, q] feat ft = Inr [Fin (p1 / p2), Fin (q1 / q2)]"
    using assms(5) q2
    by (simp add: ratio_confidence_def ratio_row_top [OF assms(1)] ratio_row_top [OF assms(2)])
  have m: "q1 - q2 < p1 - p2"
    using assms(3,4) by simp
  have "q1 / q2 \<le> q1 / p2"
    using assms(4,5) q1 by (simp add: frac_le)
  also have "q1 / p2 < p1 / p2"
    using assms(3,5) by (simp add: divide_strict_right_mono)
  finally have r: "q1 / q2 < p1 / p2" .
  show ?thesis
    using lc mc rc assms(3) m r by blast
qed

theorem confidence_scores_agree_witness:
  "top_two [9 / 10, 1 / 10] = Inr (9 / 10, 1 / 10) \<and>
   top_two [6 / 10, 4 / 10] = Inr (6 / 10, 4 / 10) \<and>
   (\<exists>lp lq mp mq rp rq.
      least_confidence [[9 / 10, 1 / 10], [6 / 10, 4 / 10]] [] None = Inr [Fin lp, Fin lq] \<and>
      lq < lp \<and>
      margin_confidence [[9 / 10, 1 / 10], [6 / 10, 4 / 10]] [] None = Inr [Fin mp, Fin mq] \<and>
      mq < mp \<and>
      ratio_confidence [[9 / 10, 1 / 10], [6 / 10, 4 / 10]] [] None = Inr [Fin rp, Fin rq] \<and>
      rq < rp)"
proof -
  have a: "top_two [9 / 10, 1 / 10] = Inr (9 / 10, 1 / 10)"
    by (simp add: top_two_def)
  have b: "top_two [6 / 10, 4 / 10] = Inr (6 / 10, 4 / 10)"
    by (simp add: top_two_def)
  have c: "(6 / 10 :: real) < 9 / 10" "(1 / 10 :: real) \<le> 4 / 10" "(0 :: real) < 1 / 10"
    by simp_all
  show ?thesis
    using confidence_scores_agree [OF a b c, of "[]" None] a b by blast
qed


text \<open>
  C6, as stated, fails. \<open>[0.6, 0.39, 0.01]\<close> is more peaked than
  \<open>[0.5, 0.25, 0.25]\<close>: its largest entry is larger, and so are its two largest
  together. \<open>least_confidence\<close> gives it the higher score (\<open>0.6\<close> against \<open>0.5\<close>),
  but \<open>margin_confidence\<close> and \<open>ratio_confidence\<close> give it the lower one (\<open>0.21\<close>
  against \<open>0.25\<close>, and \<open>20/13\<close> against \<open>2\<close>): the three do not rank the pair the
  same way.
\<close>

theorem confidence_scores_disagree:
  "probability_vector [6 / 10, 39 / 100, 1 / 100] \<and>
   probability_vector [1 / 2, 1 / 4, 1 / 4] \<and>
   more_peaked [6 / 10, 39 / 100, 1 / 100] [1 / 2, 1 / 4, 1 / 4] \<and>
   least_confidence [[6 / 10, 39 / 100, 1 / 100], [1 / 2, 1 / 4, 1 / 4]] [] None
     = Inr [Fin (6 / 10), Fin (1 / 2)] \<and>
   margin_confidence [[6 / 10, 39 / 100, 1 / 100], [1 / 2, 1 / 4, 1 / 4]] [] None
     = Inr [Fin (21 / 100), Fin (1 / 4)] \<and>
   ratio_confidence [[6 / 10, 39 / 100, 1 / 100], [1 / 2, 1 / 4, 1 / 4]] [] None
     = Inr [Fin (20 / 13), Fin 2] \<and>
   (21 / 100 :: real) < 1 / 4 \<and> (20 / 13 :: real) < 2"
proof (intro conjI)
  show "probability_vector [6 / 10, 39 / 100, 1 / 100]"
    by (simp add: probability_vector_def)
  show "probability_vector [1 / 2, 1 / 4, 1 / 4]"
    by (simp add: probability_vector_def)
  show "more_peaked [6 / 10, 39 / 100, 1 / 100] [1 / 2, 1 / 4, 1 / 4]"
    by (simp add: more_peaked_def upt_rec)
  show "least_confidence [[6 / 10, 39 / 100, 1 / 100], [1 / 2, 1 / 4, 1 / 4]] [] None
     = Inr [Fin (6 / 10), Fin (1 / 2)]"
    by (simp add: least_confidence_def row_max_def)
  show "margin_confidence [[6 / 10, 39 / 100, 1 / 100], [1 / 2, 1 / 4, 1 / 4]] [] None
     = Inr [Fin (21 / 100), Fin (1 / 4)]"
    by (simp add: margin_confidence_def margin_row_def top_two_def)
  show "ratio_confidence [[6 / 10, 39 / 100, 1 / 100], [1 / 2, 1 / 4, 1 / 4]] [] None
     = Inr [Fin (20 / 13), Fin 2]"
    by (simp add: ratio_confidence_def ratio_row_def top_two_def)
qed simp_all

lemma fsum_Fin: "fsum (map Fin xs) = Fin (sum_list xs)"
  by (induction xs) (simp_all add: fsum_def)

lemma fdot_Fin: "fdot (map Fin a) (map Fin b) = Fin (dot a b)"
proof -
  have "map2 fmul (map Fin a) (map Fin b) = map Fin (map2 (*) a b)"
    by (induction a b rule: list_induct2') simp_all
  then show ?thesis
    by (simp only: fdot_def dot_def fsum_Fin)
qed

lemma normalize_row_nonzero:
  assumes "norm_row u \<noteq> 0"
  shows "normalize_row u = map Fin (map (\<lambda>x. x / norm_row u) u)"
  using assms by (simp add: normalize_row_def)

lemma mm_transposed_normalized:
  assumes "\<forall>u \<in> set a. norm_row u \<noteq> 0" and "\<forall>v \<in> set b. norm_row v \<noteq> 0"
  shows "mm_transposed (map normalize_row a) (map normalize_row b) =
     map (\<lambda>u. map (\<lambda>v. Fin (cosine_similarity u v)) b) a"
proof -
  have "fdot (normalize_row u) (normalize_row v) = Fin (cosine_similarity u v)"
    if "u \<in> set a" "v \<in> set b" for u v
  proof -
    have n: "norm_row u \<noteq> 0" "norm_row v \<noteq> 0"
      using that assms by simp_all
    show ?thesis
      by (simp only: normalize_row_nonzero [OF n(1)] normalize_row_nonzero [OF n(2)]
          fdot_Fin cosine_similarity_def)
  qed
  then show ?thesis
    by (simp add: mm_transposed_def comp_def)
qed

lemma mean_row_Fin:
  assumes "b \<noteq> []"
  shows "mean_row (map (\<lambda>v. Fin (f v)) b) = Fin ((\<Sum>v\<leftarrow>b. f v) / real (length b))"
proof -
  have "map (\<lambda>v. Fin (f v)) b = map Fin (map f b)"
    by simp
  then have "fsum (map (\<lambda>v. Fin (f v)) b) = Fin (\<Sum>v\<leftarrow>b. f v)"
    by (simp only: fsum_Fin)
  then show ?thesis
    using assms by (simp add: mean_row_def)
qed

text \<open>The score of \<open>density_weighted\<close> for feature rows of non-zero norm and a non-empty bank.\<close>

lemma density_weighted_formula:
  assumes "length feat = length probs" and "ft \<noteq> []" and "same_width feat ft"
    and "\<forall>u \<in> set feat. norm_row u \<noteq> 0" and "\<forall>v \<in> set ft. norm_row v \<noteq> 0"
    and "traverse row_max probs = Inr lc"
  shows "density_weighted probs feat (Some ft) =
     Inr (map2 (\<lambda>l u. Fin (l * (1 - (\<Sum>v\<leftarrow>ft. cosine_similarity u v) / real (length ft))))
            lc feat)"
proof -
  have len: "length lc = length feat"
    using traverse_length [OF assms(6)] assms(1) by simp
  have w: "map (\<lambda>r. fadd (fneg (mean_row r)) (Fin 1))
        (mm_transposed (map normalize_row feat) (map normalize_row ft)) =
      map (\<lambda>u. Fin (1 - (\<Sum>v\<leftarrow>ft. cosine_similarity u v) / real (length ft))) feat"
    unfolding mm_transposed_normalized [OF assms(4,5)]
    by (simp add: mean_row_Fin [OF assms(2)] comp_def)
  have mul: "broadcast_mul lc
        (map (\<lambda>u. Fin (1 - (\<Sum>v\<leftarrow>ft. cosine_similarity u v) / real (length ft))) feat) =
      map2 (\<lambda>l u. Fin (l * (1 - (\<Sum>v\<leftarrow>ft. cosine_similarity u v) / real (length ft))))
        lc feat"
    using len by (simp add: broadcast_mul_def zip_map2 comp_def split_def)
  show ?thesis
    unfolding density_weighted_def
    using assms(1,3) by (simp add: assms(6) broadcastable_def w mul)
qed

text \<open>
  C7. Let the batch have one feature row per example, the reference bank be non-empty, all
  feature rows be of one width and of non-zero norm. If the cosine similarity of every
  example's feature row to every reference row is zero, then \<open>density_weighted\<close> returns
  what \<open>least_confidence\<close> returns: the same scores, or the same error.
\<close>

theorem density_weighted_zero_similarity:
  assumes "length feat = length probs" and "ft \<noteq> []" and "same_width feat ft"
    and "\<forall>u \<in> set feat. norm_row u \<noteq> 0" and "\<forall>v \<in> set ft. norm_row v \<noteq> 0"
    and "\<forall>u \<in> set feat. \<forall>v \<in> set ft. cosine_similarity u v = 0"
  shows "density_weighted probs feat (Some ft) = least_confidence probs feat (Some ft)"
proof (cases "traverse row_max probs")
  case (Inl e)
  then show ?thesis
    by (simp add: density_weighted_def least_confidence_def)
next
  case (Inr lc)
  have len: "length lc = length feat"
    using traverse_length [OF Inr] assms(1) by simp
  have zero: "(\<Sum>v\<leftarrow>ft. cosine_similarity u v) = 0" if "u \<in> set feat" for u
  proof -
    have "map (\<lambda>v. cosine_similarity u v) ft = map (\<lambda>v. 0) ft"
      using assms(6) that by simp
    then show ?thesis by (simp only: sum_list_0)
  qed
  have "map2 (\<lambda>l u. Fin (l * (1 - (\<Sum>v\<leftarrow>ft. cosine_similarity u v) / real (length ft))))
        lc feat =
      map2 (\<lambda>l u. Fin l) lc feat"
    by (rule map_cong [OF refl]) (auto simp: zero dest: set_zip_rightD)
  also have "\<dots> = map Fin (map fst (zip lc feat))"
    by (simp add: comp_def split_def)
  also have "\<dots> = map Fin lc"
    using len by simp
  finally show ?thesis
    using density_weighted_formula [OF assms(1-5) Inr] Inr by (simp add: least_confidence_def)
qed

theorem density_weighted_zero_similarity_witness:
  "density_weighted [[1 / 5, 4 / 5], [1 / 2, 1 / 2]] [[1, 0], [2, 0]] (Some [[0, 3]]) =
     Inr [Fin (4 / 5), Fin (1 / 2)] \<and>
   cosine_similarity [1, 0] [0, 3] = 0 \<and> cosine_similarity [2, 0] [0, 3] = 0"
proof -
  let ?probs = "[[1 / 5, 4 / 5], [1 / 2, 1 / 2]] :: matrix"
  let ?feat = "[[1, 0], [2, 0]] :: matrix"
  let ?ft = "[[0, 3]] :: matrix"
  have c: "cosine_similarity [1, 0] [0, 3] = 0" "cosine_similarity [2, 0] [0, 3] = 0"
    by (simp_all add: cosine_similarity_def dot_def)
  have n: "norm_row [1, 0] = 1" "norm_row [2, 0] = 2" "norm_row [0, 3] = 3"
    by (simp_all add: norm_row_def real_sqrt_abs2)
  have h1: "length ?feat = length ?probs" by simp
  have h2: "?ft \<noteq> []" by simp
  have h3: "same_width ?feat ?ft" by (simp add: same_width_def)
  have h4: "\<forall>u \<in> set ?feat. norm_row u \<noteq> 0" using n by simp
  have h5: "\<forall>v \<in> set ?ft. norm_row v \<noteq> 0" using n by simp
  have h6: "\<forall>u \<in> set ?feat. \<forall>v \<in> set ?ft. cosine_similarity u v = 0" using c by simp
  have "least_confidence ?probs ?feat (Some ?ft) = Inr [Fin (4 / 5), Fin (1 / 2)]"
    by (simp add: least_confidence_def row_max_def)
  then show ?thesis
    using density_weighted_zero_similarity [OF h1 h2 h3 h4 h5 h6] c by simp
qed
section \<open>Properties of \<open>get_samples\<close>\<close>

lemma traverse_Cons_Inr:
  "traverse f (x # xs) = Inr zs \<longleftrightarrow> (\<exists>y ys. f x = Inr y \<and> traverse f xs = Inr ys \<and> zs = y # ys)"
  by (auto split: sum.splits)

lemma traverse_lengths:
  "traverse f xs = Inr ys \<Longrightarrow> (\<And>x y. x \<in> set xs \<Longrightarrow> f x = Inr y \<Longrightarrow> length y = g x) \<Longrightarrow>
   map length ys = map g xs"
proof (induction xs arbitrary: ys)
  case Nil
  then show ?case by simp
next
  case (Cons x xs)
  from Cons.prems(1) obtain y ys' where y: "f x = Inr y" "traverse f xs = Inr ys'" "ys = y # ys'"
    unfolding traverse_Cons_Inr by blast
  have "map length ys' = map g xs"
    using Cons.IH [OF y(2)] Cons.prems(2) by simp
  moreover have "length y = g x"
    using Cons.prems(2) [of x y] y(1) by simp
  ultimately show ?case using y(3) by simp
qed

subsection \<open>The two loops of \<open>get_samples\<close>\<close>

lemma train_pass_Inr:
  "train_pass model trl st = Inr st' \<Longrightarrow>
   calls st' = calls st @ map fst trl \<and> samples st' = samples st \<and>
   feat_train st' =
     (if trl = [] then feat_train st
      else Some ((case feat_train st of None \<Rightarrow> [] | Some ft \<Rightarrow> ft) @
                 concat (map (\<lambda>(data_x, data_y). snd (model data_x)) trl)))"
proof (induction trl arbitrary: st)
  case Nil
  then show ?case by simp
next
  case (Cons b trl)
  obtain data_x data_y where b: "b = (data_x, data_y)" by (cases b)
  obtain outp feat where m: "model data_x = (outp, feat)" by (cases "model data_x")
  show ?case
  proof (cases "feat_train st")
    case None
    let ?st = "st\<lparr>calls := calls st @ [data_x], feat_train := Some feat\<rparr>"
    have "train_pass model trl ?st = Inr st'"
      using Cons.prems None by (simp add: b m)
    from Cons.IH [OF this] show ?thesis
      by (simp add: b m None)
  next
    case (Some ft)
    let ?st = "st\<lparr>calls := calls st @ [data_x], feat_train := Some (ft @ feat)\<rparr>"
    have "train_pass model trl ?st = Inr st'"
      using Cons.prems Some by (simp add: b m split: if_splits)
    from Cons.IH [OF this] show ?thesis
      by (simp add: b m Some)
  qed
qed

text \<open>
  Once \<open>samples\<close> holds a value that is no tensor, the next batch ends the loop with the
  TypeError of \<open>torch.cat\<close>.
\<close>

lemma unlabeled_pass_not_tensor:
  assumes "unlabeled_pass lib self pf model ul st = Inr st'"
    and "samples st = Some NotATensor"
  shows "ul = []"
proof (cases ul)
  case Nil
  then show ?thesis by simp
next
  case (Cons b rest)
  obtain data_x data_y where b: "b = (data_x, data_y)" by (cases b)
  obtain outp feat where m: "model data_x = (outp, feat)" by (cases "model data_x")
  have "unlabeled_pass lib self pf model (b # rest) st \<noteq> Inr st'"
    using assms(2) by (simp add: b m Let_def cat_scores_def split: sum.splits)
  with assms(1) Cons show ?thesis by simp
qed

lemma cat_scores_Inr:
  "cat_scores a b = Inr c \<longleftrightarrow> (\<exists>s score. a = Scores s \<and> b = Scores score \<and> c = Scores (s @ score))"
  by (cases a; cases b) (auto simp: cat_scores_def)

text \<open>The scores \<open>samples\<close> holds before the loop: none for \<open>None\<close>.\<close>

lemma unlabeled_pass_Inr:
  assumes "unlabeled_pass lib self pf model ul st = Inr st'"
    and "samples st' = Some (Scores s)"
    and "samples st = None \<or> samples st = Some (Scores s0)"
    and "samples st = None \<longrightarrow> s0 = []"
  shows "calls st' = calls st @ map fst ul \<and> feat_train st' = feat_train st \<and>
    (ul \<noteq> [] \<longrightarrow> pf \<noteq> 0) \<and> (samples st = None \<longrightarrow> ul \<noteq> []) \<and>
    (\<exists>sc. traverse (batch_scores lib self model (feat_train st)) ul = Inr (map Scores sc) \<and>
       s = s0 @ concat sc)"
  using assms
proof (induction ul arbitrary: st s0)
  case Nil
  then show ?case by auto
next
  case (Cons b ul)
  obtain data_x data_y where b: "b = (data_x, data_y)" by (cases b)
  obtain outp feat where m: "model data_x = (outp, feat)" by (cases "model data_x")
  from Cons.prems(1) obtain score s1 where
    score: "call_method lib (method_fn self) (softmax lib outp) feat (feat_train st) = Inr score"
    and s1: "(case samples st of None \<Rightarrow> Inr score | Some s \<Rightarrow> cat_scores s score) = Inr s1"
    by (auto simp: b m Let_def split: sum.splits)
  let ?st = "st\<lparr>calls := calls st @ [data_x], samples := Some s1\<rparr>"
  have pf: "pf \<noteq> 0" and rest: "unlabeled_pass lib self pf model ul ?st = Inr st'"
    using Cons.prems(1) score s1 by (auto simp: b m Let_def split: if_splits)
  have "s1 \<noteq> NotATensor"
  proof
    assume n: "s1 = NotATensor"
    then have "ul = []"
      using unlabeled_pass_not_tensor [OF rest] by simp
    then have "st' = ?st"
      using rest by simp
    then show False
      using Cons.prems(2) n by simp
  qed
  then obtain x where x: "s1 = Scores x"
    by (cases s1) auto
  obtain sc0 where sc0: "score = Scores sc0" and xs: "x = s0 @ sc0"
  proof (cases "samples st")
    case None
    then show ?thesis
      using s1 x Cons.prems(4) that by simp
  next
    case (Some a)
    then have "samples st = Some (Scores s0)"
      using Cons.prems(3) by simp
    then show ?thesis
      using s1 x that by (auto simp: cat_scores_Inr)
  qed
  have bs: "batch_scores lib self model (feat_train st) b = Inr (Scores sc0)"
    by (simp add: batch_scores_def b m score sc0)
  have "samples ?st = None \<or> samples ?st = Some (Scores x)" "samples ?st = None \<longrightarrow> x = []"
    by (simp_all add: x)
  from Cons.IH [OF rest Cons.prems(2) this] obtain sc where
    c: "calls st' = calls ?st @ map fst ul" and f: "feat_train st' = feat_train st" and
    sc: "traverse (batch_scores lib self model (feat_train st)) ul = Inr (map Scores sc)" and
    s: "s = x @ concat sc"
    by auto
  have t: "traverse (batch_scores lib self model (feat_train st)) (b # ul) =
      Inr (map Scores (sc0 # sc))"
    by (simp add: bs sc)
  have s': "s = s0 @ concat (sc0 # sc)"
    using s xs by simp
  show ?case
    using c f pf t s' by (intro conjI exI [of _ "sc0 # sc"]) (simp_all add: b)
qed


subsection \<open>One score per example\<close>

lemma broadcast_mul_length:
  "length xs = length ys \<Longrightarrow> length (broadcast_mul xs ys) = length xs"
  by (simp add: broadcast_mul_def)

lemma density_weighted_length:
  assumes "density_weighted probs feat bank = Inr sc" and "length feat = length probs"
  shows "length sc = length probs"
proof -
  from assms(1) obtain lc ft where
    lc: "traverse row_max probs = Inr lc" and
    sc: "sc = broadcast_mul lc (map (\<lambda>r. fadd (fneg (mean_row r)) (Fin 1))
          (mm_transposed (map normalize_row feat) (map normalize_row ft)))"
    by (auto simp: density_weighted_def Let_def split: sum.splits option.splits if_splits)
  have "length lc = length probs"
    by (rule traverse_length [OF lc])
  then show ?thesis
    using assms(2) sc by (simp add: broadcast_mul_length mm_transposed_def)
qed

lemma call_method_length:
  assumes "call_method lib m probs feat bank = Inr (Scores sc)" and "length feat = length probs"
  shows "length sc = length probs"
proof (cases m)
  case Density_weighted
  then show ?thesis
    using assms density_weighted_length [of probs feat bank sc]
    by (auto simp: tensor_def split: sum.splits)
qed (use assms in \<open>auto simp: tensor_def least_confidence_def margin_confidence_def
      ratio_confidence_def entropy_based_def dest: traverse_length split: sum.splits option.splits\<close>)

lemma batch_scores_length:
  assumes "softmax_contract (softmax lib)" and "model_rows_ok model"
    and "batch_scores lib self model bank b = Inr (Scores sc)"
  shows "length sc = length (fst b)"
proof -
  have rows: "length (fst (model (fst b))) = length (fst b)"
      "length (snd (model (fst b))) = length (fst b)"
    using assms(2) by (simp_all add: model_rows_ok_def)
  have "map length (softmax lib (fst (model (fst b)))) = map length (fst (model (fst b)))"
    using assms(1) by (simp add: softmax_contract_def)
  then have "length (softmax lib (fst (model (fst b)))) = length (fst (model (fst b)))"
    by (rule map_eq_imp_length_eq)
  then show ?thesis
    using call_method_length [OF assms(3) [unfolded batch_scores_def]] rows by simp
qed

lemma batch_scores_lengths:
  assumes "softmax_contract (softmax lib)" and "model_rows_ok model"
    and "traverse (batch_scores lib self model bank) ul = Inr (map Scores sc)"
  shows "map length sc = map (\<lambda>b. length (fst b)) ul"
  using assms(3)
proof (induction ul arbitrary: sc)
  case Nil
  then show ?case by simp
next
  case (Cons b ul)
  have "\<exists>y ys. batch_scores lib self model bank b = Inr y \<and>
      traverse (batch_scores lib self model bank) ul = Inr ys \<and> map Scores sc = y # ys"
    using Cons.prems by (simp only: traverse_Cons_Inr)
  then obtain y ys where
    y: "batch_scores lib self model bank b = Inr y"
      "traverse (batch_scores lib self model bank) ul = Inr ys" "map Scores sc = y # ys"
    by (elim exE conjE)
  from y(3) obtain s0 sc' where sc: "sc = s0 # sc'" "y = Scores s0" "ys = map Scores sc'"
    by (cases sc) auto
  have "length s0 = length (fst b)"
    using batch_scores_length [OF assms(1,2)] y(1) sc(2) by simp
  moreover have "map length sc' = map (\<lambda>b. length (fst b)) ul"
    using Cons.IH y(2) sc(3) by simp
  ultimately show ?case
    using sc(1) by simp
qed

subsection \<open>The sort of the library meets the contract\<close>

lemma iter_swap_mset: "mset (iter_swap i j xs) = mset xs"
  by (simp add: iter_swap_def mset_swap)

lemma move_median_to_first_mset: "mset (move_median_to_first cmp r a b c xs) = mset xs"
  by (simp add: move_median_to_first_def iter_swap_mset)

lemma unguarded_partition_mset:
  "mset (fst (unguarded_partition cmp pivot xs first lst)) = mset xs"
proof (induction cmp pivot xs first lst rule: unguarded_partition.induct)
  case (1 cmp pivot xs first lst)
  show ?case
  proof (cases "scan_up cmp pivot xs first < scan_down cmp pivot xs (lst - 1)")
    case True
    then show ?thesis
      using 1 by (subst unguarded_partition.simps) (simp add: iter_swap_mset)
  next
    case False
    then show ?thesis
      by (subst unguarded_partition.simps) simp
  qed
qed

lemma unguarded_partition_pivot_mset:
  "unguarded_partition_pivot cmp xs first lst = (xs1, middle) \<Longrightarrow> mset xs1 = mset xs"
  using unguarded_partition_mset
    [of cmp "move_median_to_first cmp first (first + 1) (first + (lst - first) div 2) (lst - 1) xs ! first"
        "move_median_to_first cmp first (first + 1) (first + (lst - first) div 2) (lst - 1) xs"
        "first + 1" lst]
  by (simp add: unguarded_partition_pivot_def Let_def move_median_to_first_mset)

lemma introsort_loop_mset: "mset (introsort_loop cmp depth_limit xs first lst) = mset xs"
proof (induction depth_limit arbitrary: xs first lst)
  case 0
  then show ?case by simp
next
  case (Suc depth_limit)
  show ?case
  proof (cases "16 < lst - first")
    case True
    obtain xs1 middle where p: "unguarded_partition_pivot cmp xs first lst = (xs1, middle)"
      by (cases "unguarded_partition_pivot cmp xs first lst")
    show ?thesis
      using True by (simp add: p Suc.IH unguarded_partition_pivot_mset [OF p])
  next
    case False
    then show ?thesis by simp
  qed
qed

text \<open>Inserting an element, read from the right end of the sorted part.\<close>

lemma linear_insert_rev:
  "linear_insert cmp ys val =
     rev (dropWhile (\<lambda>y. cmp val y) (rev ys)) @ val # rev (takeWhile (\<lambda>y. cmp val y) (rev ys))"
proof -
  let ?P = "\<lambda>y. cmp val y"
  let ?k = "length (takeWhile ?P (rev ys))"
  have "rev (dropWhile ?P (rev ys)) = rev (drop ?k (rev ys))"
    by (rule arg_cong [OF dropWhile_eq_drop])
  also have "\<dots> = take (length ys - ?k) ys"
    by (simp add: rev_drop)
  finally have d: "rev (dropWhile ?P (rev ys)) = take (length ys - ?k) ys" .
  have "rev (takeWhile ?P (rev ys)) = rev (take ?k (rev ys))"
    by (rule arg_cong [OF takeWhile_eq_take])
  also have "\<dots> = drop (length ys - ?k) ys"
    by (simp add: rev_take)
  finally have t: "rev (takeWhile ?P (rev ys)) = drop (length ys - ?k) ys" .
  show ?thesis
    unfolding d t by (simp add: linear_insert_def Let_def)
qed

lemma linear_insert_mset: "mset (linear_insert cmp ys val) = add_mset val (mset ys)"
proof -
  have "mset (take n ys) + mset (drop n ys) = mset ys" for n
    by (metis append_take_drop_id mset_append)
  then show ?thesis
    by (simp add: linear_insert_def Let_def)
qed

lemma linear_insert_sorted:
  assumes asym: "\<And>a b. cmp a b \<Longrightarrow> \<not> cmp b a"
    and trans: "\<And>a b c. \<not> cmp b a \<Longrightarrow> \<not> cmp c b \<Longrightarrow> \<not> cmp c a"
    and srt: "sorted_wrt (\<lambda>a b. \<not> cmp b a) ys"
  shows "sorted_wrt (\<lambda>a b. \<not> cmp b a) (linear_insert cmp ys val)"
proof -
  let ?R = "\<lambda>a b. \<not> cmp b a"
  define D where "D = dropWhile (\<lambda>y. cmp val y) (rev ys)"
  define T where "T = takeWhile (\<lambda>y. cmp val y) (rev ys)"
  have "rev ys = T @ D"
    by (simp add: D_def T_def)
  then have ys: "ys = rev D @ rev T"
    by (metis rev_append rev_rev_ident)
  have s: "sorted_wrt ?R (rev D @ rev T)"
    using srt ys by (simp only:)
  have sd: "sorted_wrt ?R (rev D)" and st: "sorted_wrt ?R (rev T)"
    and cross: "\<forall>x \<in> set (rev D). \<forall>y \<in> set (rev T). ?R x y"
    using s unfolding sorted_wrt_append by blast+
  have right: "\<forall>y \<in> set (rev T). ?R val y"
  proof
    fix y
    assume "y \<in> set (rev T)"
    then have "cmp val y"
      using set_takeWhileD [of y "\<lambda>y. cmp val y" "rev ys"] by (simp add: T_def)
    then show "?R val y" by (rule asym)
  qed
  have left: "\<forall>x \<in> set (rev D). ?R x val"
  proof
    fix x
    assume x: "x \<in> set (rev D)"
    then have ne: "D \<noteq> []"
      by (cases D) simp_all
    have z: "\<not> cmp val (hd D)"
      using hd_dropWhile [of "\<lambda>y. cmp val y" "rev ys"] ne by (simp add: D_def)
    have l: "rev D = rev (tl D) @ [hd D]"
      using ne by (cases D) simp_all
    show "?R x val"
    proof (cases "x \<in> set (rev (tl D))")
      case True
      have "sorted_wrt ?R (rev (tl D) @ [hd D])"
        using sd l by (simp only:)
      then have "?R x (hd D)"
        using True unfolding sorted_wrt_append by simp
      then show ?thesis
        using z by (rule trans)
    next
      case False
      then have "x = hd D"
        using x unfolding l by simp
      then show ?thesis
        using z by simp
    qed
  qed
  have "sorted_wrt ?R (val # rev T)"
    using st right by simp
  then have "sorted_wrt ?R (rev D @ val # rev T)"
    unfolding sorted_wrt_append using sd left cross by simp
  then show ?thesis
    by (simp only: linear_insert_rev D_def T_def)
qed

lemma foldl_linear_insert:
  assumes asym: "\<And>a b. cmp a b \<Longrightarrow> \<not> cmp b a"
    and trans: "\<And>a b c. \<not> cmp b a \<Longrightarrow> \<not> cmp c b \<Longrightarrow> \<not> cmp c a"
  shows "sorted_wrt (\<lambda>a b. \<not> cmp b a) ys \<Longrightarrow>
      sorted_wrt (\<lambda>a b. \<not> cmp b a) (foldl (linear_insert cmp) ys xs)"
    and "mset (foldl (linear_insert cmp) ys xs) = mset ys + mset xs"
proof -
  show "sorted_wrt (\<lambda>a b. \<not> cmp b a) ys \<Longrightarrow>
      sorted_wrt (\<lambda>a b. \<not> cmp b a) (foldl (linear_insert cmp) ys xs)"
  proof (induction xs arbitrary: ys)
    case Nil
    then show ?case by simp
  next
    case (Cons x xs)
    have "sorted_wrt (\<lambda>a b. \<not> cmp b a) (linear_insert cmp ys x)"
      using asym trans Cons.prems by (rule linear_insert_sorted)
    then show ?case
      using Cons.IH by simp
  qed
  show "mset (foldl (linear_insert cmp) ys xs) = mset ys + mset xs"
    by (induction xs arbitrary: ys) (simp_all add: linear_insert_mset)
qed

lemma final_insertion_sort_eq: "final_insertion_sort cmp xs = insertion_sort cmp xs"
proof -
  have "foldl (linear_insert cmp) (foldl (linear_insert cmp) [] (take 16 xs)) (drop 16 xs) =
      foldl (linear_insert cmp) [] (take 16 xs @ drop 16 xs)"
    by (simp only: foldl_append)
  then show ?thesis
    by (simp add: final_insertion_sort_def insertion_sort_def)
qed

lemma std_sort_mset: "mset (std_sort cmp xs) = mset xs"
proof -
  have "mset (foldl (linear_insert cmp) [] zs) = mset zs" for zs
    by (induction zs rule: rev_induct) (simp_all add: linear_insert_mset)
  then show ?thesis
    by (simp add: std_sort_def final_insertion_sort_eq insertion_sort_def introsort_loop_mset)
qed

lemma std_sort_sorted:
  assumes "\<And>a b. cmp a b \<Longrightarrow> \<not> cmp b a"
    and "\<And>a b c. \<not> cmp b a \<Longrightarrow> \<not> cmp c b \<Longrightarrow> \<not> cmp c a"
  shows "sorted_wrt (\<lambda>a b. \<not> cmp b a) (std_sort cmp xs)"
  using foldl_linear_insert(1) [of cmp "[]", OF assms]
  by (simp add: std_sort_def final_insertion_sort_eq insertion_sort_def)

text \<open>At most 16 elements: the insertion sort alone.\<close>

lemma std_sort_small: "length xs \<le> 16 \<Longrightarrow> std_sort cmp xs = insertion_sort cmp xs"
  by (cases "lg (length xs) * 2")
    (auto simp: std_sort_def final_insertion_sort_eq insertion_sort_def)

text \<open>The comparison of the library is a strict order on the scores, \<open>nan\<close> the largest.\<close>

lemma key_value_comp_asym: "key_value_comp d a b \<Longrightarrow> \<not> key_value_comp d b a"
  by (cases d; cases "fst a"; cases "fst b") (auto simp: key_value_comp_def)

lemma key_value_comp_trans:
  "\<not> key_value_comp d b a \<Longrightarrow> \<not> key_value_comp d c b \<Longrightarrow> \<not> key_value_comp d c a"
  by (cases d; cases "fst a"; cases "fst b"; cases "fst c") (auto simp: key_value_comp_def)

lemma key_value_comp_ordered:
  "\<not> key_value_comp d b a \<Longrightarrow> ordered_by d (fst a) (fst b)"
  by (cases d; cases "fst a"; cases "fst b") (auto simp: key_value_comp_def ordered_by_def fle_def)

lemma cpu_argsort_contract: "argsort_contract cpu_argsort"
proof -
  have "mset (cpu_argsort d xs) = mset [0..<length xs] \<and>
      sorted_wrt (ordered_by d) (map (\<lambda>i. xs ! i) (cpu_argsort d xs))" for d xs
  proof
    let ?r = "std_sort (key_value_comp d) (zip xs [0..<length xs])"
    have m: "mset ?r = mset (zip xs [0..<length xs])"
      by (rule std_sort_mset)
    have "mset (map snd ?r) = mset (map snd (zip xs [0..<length xs]))"
      using m by (metis mset_map)
    then show "mset (cpu_argsort d xs) = mset [0..<length xs]"
      by (simp add: cpu_argsort_def)
    have "set ?r = set (zip xs [0..<length xs])"
      using m by (rule mset_eq_setD)
    then have el: "fst p = xs ! snd p" if "p \<in> set ?r" for p
      using that by (auto simp: set_zip)
    have "sorted_wrt (\<lambda>a b. \<not> key_value_comp d b a) ?r"
    proof (rule std_sort_sorted)
      show "key_value_comp d a b \<Longrightarrow> \<not> key_value_comp d b a" for a b
        by (rule key_value_comp_asym)
      show "\<not> key_value_comp d b a \<Longrightarrow> \<not> key_value_comp d c b \<Longrightarrow> \<not> key_value_comp d c a"
        for a b c
        by (rule key_value_comp_trans)
    qed
    then have "sorted_wrt (\<lambda>a b. ordered_by d (fst a) (fst b)) ?r"
      by (rule sorted_wrt_mono_rel [rotated]) (rule key_value_comp_ordered)
    then have "sorted_wrt (ordered_by d) (map fst ?r)"
      by (simp add: sorted_wrt_map)
    moreover have "map (\<lambda>i. xs ! i) (map snd ?r) = map fst ?r"
      using el by simp
    ultimately have "sorted_wrt (ordered_by d) (map (\<lambda>i. xs ! i) (map snd ?r))"
      by (simp only:)
    then show "sorted_wrt (ordered_by d) (map (\<lambda>i. xs ! i) (cpu_argsort d xs))"
      by (simp only: cpu_argsort_def)
  qed
  then show ?thesis
    by (simp add: argsort_contract_def)
qed

lemma float_softmax_contract: "softmax_contract float_softmax"
  by (simp add: softmax_contract_def float_softmax_def float_softmax_row_def Let_def comp_def)

lemma cpu_library_contract:
  "argsort_contract (argsort cpu_library)" "softmax_contract (softmax cpu_library)"
  by (simp_all add: cpu_library_def cpu_argsort_contract float_softmax_contract)

text \<open>What follows of the contract.\<close>

lemma argsort_contractD:
  assumes "argsort_contract srt"
  shows "mset (srt d s) = mset [0..<length s]"
    and "sorted_wrt (ordered_by d) (map (\<lambda>i. s ! i) (srt d s))"
    and "distinct (srt d s)"
    and "set (srt d s) = {..<length s}"
    and "length (srt d s) = length s"
proof -
  show m: "mset (srt d s) = mset [0..<length s]"
    and "sorted_wrt (ordered_by d) (map (\<lambda>i. s ! i) (srt d s))"
    using assms by (simp_all add: argsort_contract_def)
  show "distinct (srt d s)"
    using mset_eq_imp_distinct_iff [OF m] by simp
  show "set (srt d s) = {..<length s}"
    using mset_eq_setD [OF m] by (simp add: lessThan_atLeast0)
  show "length (srt d s) = length s"
    using mset_eq_length [OF m] by simp
qed

lemma py_take_take:
  "py_take number xs = take (if 0 \<le> number then nat number else nat (int (length xs) + number)) xs"
  by (simp add: py_take_def)


subsection \<open>What \<open>get_samples\<close> returns\<close>

lemma get_samples_Inr:
  assumes "get_samples lib self pf model trl ul number = Inr (pos, called)"
  shows "called = map fst trl @ map fst ul \<and> ul \<noteq> [] \<and> pf \<noteq> 0 \<and>
    (\<exists>sc. traverse (batch_scores lib self model (feature_bank model trl)) ul =
         Inr (map Scores sc) \<and>
       unlabeled_scores lib self pf model trl ul = Inr (Some (Scores (concat sc))) \<and>
       pos = py_take number
         (argsort lib (uncertainty_sampling_method self = ''entropy_based'') (concat sc)))"
proof -
  let ?st0 = "\<lparr>samples = None, feat_train = None, calls = []\<rparr> :: 'a locals"
  from assms obtain st1 st2 s where
    p1: "train_pass model trl ?st0 = Inr st1" and
    p2: "unlabeled_pass lib self pf model ul st1 = Inr st2" and
    s: "samples st2 = Some (Scores s)" and
    r: "pos = py_take number
          (argsort lib (uncertainty_sampling_method self = ''entropy_based'') s)"
      "called = calls st2"
    by (auto simp: get_samples_def split: sum.splits option.splits call_result.splits if_splits)
  from train_pass_Inr [OF p1] have
    c1: "calls st1 = map fst trl" and s1: "samples st1 = None" and
    f1: "feat_train st1 = feature_bank model trl"
    by (simp_all add: feature_bank_def)
  have h: "samples st1 = None \<or> samples st1 = Some (Scores [])" "samples st1 = None \<longrightarrow> [] = []"
    using s1 by simp_all
  from unlabeled_pass_Inr [OF p2 s h] obtain sc where
    c2: "calls st2 = calls st1 @ map fst ul" and
    ne: "ul \<noteq> []" and pf: "pf \<noteq> 0" and
    sc: "traverse (batch_scores lib self model (feat_train st1)) ul = Inr (map Scores sc)" and
    ss: "s = concat sc"
    using s1 by auto
  have us: "unlabeled_scores lib self pf model trl ul = Inr (Some (Scores (concat sc)))"
    using p1 p2 s ss by (simp add: unlabeled_scores_def)
  show ?thesis
    using c1 c2 r ne pf sc us unfolding f1 ss by auto
qed

text \<open>
  When the two loops end with a tensor of scores, \<open>get_samples\<close> returns: the slice of
  the sorted positions, the model having been called on the batches of both loaders.
\<close>

lemma unlabeled_scores_get_samples:
  assumes "unlabeled_scores lib self pf model trl ul = Inr (Some (Scores s))"
  shows "get_samples lib self pf model trl ul number =
     Inr (py_take number (argsort lib (uncertainty_sampling_method self = ''entropy_based'') s),
          map fst trl @ map fst ul)"
proof -
  let ?st0 = "\<lparr>samples = None, feat_train = None, calls = []\<rparr> :: 'a locals"
  from assms obtain st1 st2 where
    p1: "train_pass model trl ?st0 = Inr st1" and
    p2: "unlabeled_pass lib self pf model ul st1 = Inr st2" and
    s: "samples st2 = Some (Scores s)"
    by (auto simp: unlabeled_scores_def split: sum.splits)
  from train_pass_Inr [OF p1] have c1: "calls st1 = map fst trl" and s1: "samples st1 = None"
    by simp_all
  have h: "samples st1 = None \<or> samples st1 = Some (Scores [])" "samples st1 = None \<longrightarrow> [] = []"
    using s1 by simp_all
  from unlabeled_pass_Inr [OF p2 s h] have c2: "calls st2 = calls st1 @ map fst ul"
    by simp
  have g: "(if c then Inr (py_take number (argsort lib True s), cs)
       else Inr (py_take number (argsort lib False s), cs)) =
      (Inr (py_take number (argsort lib c s), cs) :: error + nat list \<times> 'a list list)"
    for c cs
    by simp
  have "get_samples lib self pf model trl ul number =
      (if uncertainty_sampling_method self = ''entropy_based''
       then Inr (py_take number (argsort lib True s), calls st2)
       else Inr (py_take number (argsort lib False s), calls st2))"
    by (simp add: get_samples_def p1 p2 s)
  then have "get_samples lib self pf model trl ul number =
      Inr (py_take number (argsort lib (uncertainty_sampling_method self = ''entropy_based'') s),
           calls st2)"
    by (simp only: g)
  then show ?thesis
    by (simp only: c2 c1)
qed


text \<open>A run over an empty training loader and one unlabeled batch.\<close>

lemma single_batch:
  assumes "pf \<noteq> 0"
    and "call_method lib (method_fn self) (softmax lib (fst (model data_x))) (snd (model data_x))
      None = Inr (Scores score)"
  shows "unlabeled_scores lib self pf model [] [(data_x, data_y)] = Inr (Some (Scores score))"
    and "get_samples lib self pf model [] [(data_x, data_y)] number =
      Inr (py_take number (argsort lib (uncertainty_sampling_method self = ''entropy_based'') score),
           [data_x])"
proof -
  obtain outp feat where m: "model data_x = (outp, feat)" by (cases "model data_x")
  have s: "call_method lib (method_fn self) (softmax lib outp) feat None = Inr (Scores score)"
    using assms(2) by (simp add: m)
  show u: "unlabeled_scores lib self pf model [] [(data_x, data_y)] = Inr (Some (Scores score))"
    using assms(1) by (simp add: unlabeled_scores_def m s)
  show "get_samples lib self pf model [] [(data_x, data_y)] number =
      Inr (py_take number (argsort lib (uncertainty_sampling_method self = ''entropy_based'') score),
           [data_x])"
    using unlabeled_scores_get_samples [OF u, of number] by simp
qed

text \<open>
  C4, amended. Let the library keep its contract (\<open>softmax\<close> keeps the shape, \<open>argsort\<close>
  returns a permutation of the positions that orders the scores) and the model give one
  output row and one feature row per example. Whenever \<open>get_samples\<close> returns, that is,
  raises no exception: the model was called on every batch of the training loader once,
  in order, and then on every batch of the unlabeled loader once, in order; the scores
  are those of the unlabeled batches against the feature bank of the whole training
  loader, one per example, concatenated in loader order; and the result is the first
  \<open>number\<close> entries of \<open>argsort\<close> of the scores, which is a permutation of the positions
  into the unlabeled enumeration that orders the scores (descending for
  \<open>entropy_based\<close>, ascending otherwise, \<open>nan\<close> counting as the largest score). The
  returned positions are pairwise distinct and in range. Nothing is said of the order of
  tied scores.
\<close>

theorem get_samples_positions:
  assumes "argsort_contract (argsort lib)" and "softmax_contract (softmax lib)"
    and "model_rows_ok model"
    and "get_samples lib self pf model trl ul number = Inr (pos, called)"
  shows "called = map fst trl @ map fst ul \<and>
    (\<exists>sc. traverse (batch_scores lib self model (feature_bank model trl)) ul =
         Inr (map Scores sc) \<and>
       map length sc = map (\<lambda>b. length (fst b)) ul \<and>
       length (concat sc) = length (concat (map fst ul)) \<and>
       pos = py_take number
         (argsort lib (uncertainty_sampling_method self = ''entropy_based'') (concat sc)) \<and>
       mset (argsort lib (uncertainty_sampling_method self = ''entropy_based'') (concat sc)) =
         mset [0..<length (concat sc)] \<and>
       sorted_wrt (ordered_by (uncertainty_sampling_method self = ''entropy_based''))
         (map (\<lambda>i. concat sc ! i)
           (argsort lib (uncertainty_sampling_method self = ''entropy_based'') (concat sc))) \<and>
       distinct pos \<and> set pos \<subseteq> {..<length (concat (map fst ul))})"
proof -
  let ?d = "uncertainty_sampling_method self = ''entropy_based''"
  from get_samples_Inr [OF assms(4)] obtain sc where
    called: "called = map fst trl @ map fst ul" and
    sc: "traverse (batch_scores lib self model (feature_bank model trl)) ul =
        Inr (map Scores sc)" and
    pos: "pos = py_take number (argsort lib ?d (concat sc))"
    by blast
  have lens: "map length sc = map (\<lambda>b. length (fst b)) ul"
    using assms(2,3) sc by (rule batch_scores_lengths)
  have "length (concat sc) = sum_list (map length sc)"
    by (simp add: length_concat)
  also have "\<dots> = length (concat (map fst ul))"
    unfolding lens by (simp add: length_concat comp_def)
  finally have len: "length (concat sc) = length (concat (map fst ul))" .
  note a = argsort_contractD [OF assms(1), of ?d "concat sc"]
  have d: "distinct pos"
    unfolding pos py_take_take using a(3) by (rule distinct_take)
  have "set pos \<subseteq> set (argsort lib ?d (concat sc))"
    unfolding pos py_take_take by (rule set_take_subset)
  then have r: "set pos \<subseteq> {..<length (concat (map fst ul))}"
    unfolding a(4) len .
  show ?thesis
    using called sc lens len pos a(1,2) d r by blast
qed

lemma logits_model_rows: "model_rows_ok logits_model"
  by (simp add: model_rows_ok_def logits_model_def)

text \<open>Rows on which nothing underflows, and one on which the smaller exponential does.\<close>

lemma float_softmax_row_zero2: "float_softmax_row [0, 0] = [1 / 2, 1 / 2]"
  by (simp add: float_softmax_row_def underflow_def)


lemma float_softmax_row_ln3: "float_softmax_row [ln 3, 0] = [3 / 4, 1 / 4]"
  by (simp add: float_softmax_row_def underflow_def exp_diff exp_minus)


lemma exp_underflows: "exp (- 1000 :: real) \<le> 1 / 2 ^ 150"
proof -
  have "(2 :: real) ^ 150 \<le> exp 1 ^ 150"
    using exp_ge_add_one_self [of "1 :: real"] by (intro power_mono) simp_all
  also have "\<dots> = exp (150 :: real)"
    using exp_of_nat_mult [of 150 "1 :: real"] by simp
  also have "\<dots> \<le> exp (1000 :: real)"
    by simp
  finally have "1 / exp (1000 :: real) \<le> 1 / 2 ^ 150"
    by (intro divide_left_mono) simp_all
  then show ?thesis
    by (simp add: exp_minus inverse_eq_divide)
qed

lemma float_softmax_row_saturated: "float_softmax_row [1000, 0] = [1, 0]"
  using exp_underflows by (simp add: float_softmax_row_def underflow_def)

lemma cpu_argsort_three: "cpu_argsort False [Fin (1 / 2), Fin (3 / 4), Fin (1 / 2)] = [0, 2, 1]"
  by code_simp

theorem get_samples_positions_witness:
  "argsort_contract (argsort cpu_library) \<and> softmax_contract (softmax cpu_library) \<and>
   model_rows_ok logits_model \<and>
   get_samples cpu_library
     \<lparr>uncertainty_sampling_method = ''least_confidence'', method_fn = Least_confidence,
      verbose = False\<rparr> 10 logits_model [([[1, 0]], [0])]
      [([[0, 0], [ln 3, 0]], [0, 0]), ([[0, 0]], [1])] 2 =
     Inr ([0, 2], [[[1, 0]], [[0, 0], [ln 3, 0]], [[0, 0]]]) \<and>
   distinct [0, 2 :: nat] \<and>
   set [0, 2 :: nat] \<subseteq>
     {..<length (concat (map fst [([[0, 0], [ln 3, 0 :: real]], [0, 0 :: int]), ([[0, 0]], [1])]))}"
proof -
  let ?self = "\<lparr>uncertainty_sampling_method = ''least_confidence'', method_fn = Least_confidence,
      verbose = False\<rparr>"
  let ?trl = "[([[1, 0]], [0])] :: real list loader"
  let ?ul = "[([[0, 0], [ln 3, 0]], [0, 0]), ([[0, 0]], [1])] :: real list loader"
  have run: "get_samples cpu_library ?self 10 logits_model ?trl ?ul 2 =
      Inr ([0, 2], [[[1, 0]], [[0, 0], [ln 3, 0]], [[0, 0]]])"
    by (simp add: get_samples_def logits_model_def cpu_library_def float_softmax_def
        float_softmax_row_zero2 float_softmax_row_ln3 tensor_def least_confidence_def
        row_max_def cat_scores_def cpu_argsort_three py_take_def)
  from get_samples_positions [OF cpu_library_contract logits_model_rows run]
  have "distinct [0, 2 :: nat] \<and> set [0, 2 :: nat] \<subseteq> {..<length (concat (map fst ?ul))}"
    by blast
  with run cpu_library_contract logits_model_rows show ?thesis
    by blast
qed

lemma traverse_replicate: "f x = Inr y \<Longrightarrow> traverse f (replicate n x) = Inr (replicate n y)"
  by (induction n) simp_all

lemma tied_scores:
  "call_method cpu_library Least_confidence
     (softmax cpu_library (fst (logits_model (replicate 17 [0, 0]))))
     (snd (logits_model (replicate 17 [0, 0]))) None = Inr (Scores (replicate 17 (Fin (1 / 2))))"
proof -
  have "float_softmax (replicate 17 [0, 0]) = replicate 17 [1 / 2, 1 / 2]"
    by (simp add: float_softmax_def float_softmax_row_zero2)
  moreover have "traverse row_max (replicate 17 [1 / 2, 1 / 2]) = Inr (replicate 17 (1 / 2))"
    by (rule traverse_replicate) (simp add: row_max_def)
  ultimately show ?thesis
    by (simp add: logits_model_def cpu_library_def tensor_def least_confidence_def)
qed

lemma cpu_argsort_ties:
  "cpu_argsort False (replicate 17 (Fin (1 / 2))) =
     [8, 16, 15, 14, 13, 12, 11, 10, 9, 0, 7, 6, 5, 4, 3, 2, 1]"
  by code_simp

text \<open>
  C4, as stated, fails in its last part. Seventeen unlabeled examples with the same
  logits have the same score \<open>1/2\<close> under \<open>least_confidence\<close>. Sorting them, the
  library splits the seventeen around a pivot and swaps elements equal to it:
  \<open>get_samples\<close> asked for all seventeen returns every position from \<open>0\<close> to \<open>16\<close>
  once, and not in the order of the enumeration.
\<close>

theorem get_samples_ties_out_of_order:
  "unlabeled_scores cpu_library
     \<lparr>uncertainty_sampling_method = ''least_confidence'', method_fn = Least_confidence,
      verbose = False\<rparr> 10 logits_model [] [(replicate 17 [0, 0], replicate 17 0)] =
     Inr (Some (Scores (replicate 17 (Fin (1 / 2))))) \<and>
   (case get_samples cpu_library
       \<lparr>uncertainty_sampling_method = ''least_confidence'', method_fn = Least_confidence,
        verbose = False\<rparr> 10 logits_model [] [(replicate 17 [0, 0], replicate 17 0)] 17 of
      Inl e \<Rightarrow> False
    | Inr (pos, called) \<Rightarrow>
        sort pos = [0, 1, 2, 3, 4, 5, 6, 7, 8, 9, 10, 11, 12, 13, 14, 15, 16] \<and>
        pos \<noteq> [0, 1, 2, 3, 4, 5, 6, 7, 8, 9, 10, 11, 12, 13, 14, 15, 16])"
proof -
  let ?self = "\<lparr>uncertainty_sampling_method = ''least_confidence'', method_fn = Least_confidence,
      verbose = False\<rparr>"
  have pf: "(10 :: int) \<noteq> 0" by simp
  have m: "call_method cpu_library (method_fn ?self)
      (softmax cpu_library (fst (logits_model (replicate 17 [0, 0]))))
      (snd (logits_model (replicate 17 [0, 0]))) None = Inr (Scores (replicate 17 (Fin (1 / 2))))"
    unfolding sampler.select_convs by (rule tied_scores)
  note run = single_batch [where model = logits_model and data_x = "replicate 17 [0, 0]"
      and lib = cpu_library and self = ?self, OF pf m]
  have a: "argsort cpu_library (uncertainty_sampling_method ?self = ''entropy_based'')
      (replicate 17 (Fin (1 / 2))) = [8, 16, 15, 14, 13, 12, 11, 10, 9, 0, 7, 6, 5, 4, 3, 2, 1]"
    using cpu_argsort_ties by (simp add: cpu_library_def)
  have t: "py_take 17 [8, 16, 15, 14, 13, 12, 11, 10, 9, 0, 7, 6, 5, 4, 3, 2, 1 :: nat] =
      [8, 16, 15, 14, 13, 12, 11, 10, 9, 0, 7, 6, 5, 4, 3, 2, 1]"
    by (simp add: py_take_def)
  have g: "get_samples cpu_library ?self 10 logits_model []
      [(replicate 17 [0, 0], replicate 17 0)] 17 =
      Inr ([8, 16, 15, 14, 13, 12, 11, 10, 9, 0, 7, 6, 5, 4, 3, 2, 1], [replicate 17 [0, 0]])"
    unfolding run(2) a t ..
  have p: "sort [8, 16, 15, 14, 13, 12, 11, 10, 9, 0, 7, 6, 5, 4, 3, 2, 1 :: nat] =
      [0, 1, 2, 3, 4, 5, 6, 7, 8, 9, 10, 11, 12, 13, 14, 15, 16]"
    by simp
  have n: "[8, 16, 15, 14, 13, 12, 11, 10, 9, 0, 7, 6, 5, 4, 3, 2, 1 :: nat] \<noteq>
      [0, 1, 2, 3, 4, 5, 6, 7, 8, 9, 10, 11, 12, 13, 14, 15, 16]"
    by simp
  show ?thesis
    unfolding g using run(1) p n by simp
qed

subsection \<open>Entropy and the direction of the selection\<close>

lemma fsum_NaN: "NaN \<in> set xs \<Longrightarrow> fsum xs = NaN"
proof (induction xs)
  case Nil
  then show ?case by simp
next
  case (Cons x xs)
  show ?case
  proof (cases "x = NaN")
    case True
    then show ?thesis by (simp add: fsum_def)
  next
    case False
    then have "fsum xs = NaN"
      using Cons by simp
    then show ?thesis
      by (cases x) (simp_all add: fsum_def)
  qed
qed

lemma entropy_row_positive:
  assumes "list_all (\<lambda>p. 0 < p) r"
  shows "entropy_row r = Fin (- (\<Sum>p\<leftarrow>r. p * ln p))"
proof -
  have "map (\<lambda>p. fmul (Fin (- p)) (flog p)) r = map Fin (map (\<lambda>p. - (p * ln p)) r)"
    using assms by (induction r) (simp_all add: flog_def)
  moreover have "(\<Sum>p\<leftarrow>r. - (p * ln p)) = - (\<Sum>p\<leftarrow>r. p * ln p)"
    by (induction r) simp_all
  ultimately show ?thesis
    by (simp only: entropy_row_def fsum_Fin)
qed

text \<open>
  A row with a probability of zero, as a saturated softmax gives it: the entropy is
  \<open>nan\<close>.
\<close>

lemma entropy_row_nan:
  assumes "\<not> list_all (\<lambda>p. 0 < p) r"
  shows "entropy_row r = NaN"
proof -
  from assms obtain p where p: "p \<in> set r" "p \<le> 0"
    by (auto simp: list_all_iff not_less)
  have "fmul (Fin (- p)) (flog p) = NaN"
    using p(2) by (cases "p = 0") (simp_all add: flog_def)
  then have "NaN \<in> set (map (\<lambda>p. fmul (Fin (- p)) (flog p)) r)"
    using p(1) by force
  then show ?thesis
    unfolding entropy_row_def by (rule fsum_NaN)
qed




lemma perm_two:
  fixes xs :: "nat list"
  assumes "mset xs = mset [0..<2]"
  shows "xs = [0, 1] \<or> xs = [1, 0]"
proof -
  have "length xs = 2"
    using mset_eq_length [OF assms] by simp
  then obtain a b where xs: "xs = [a, b]"
    by (cases xs; cases "tl xs") auto
  have "mset [a, b] = {#0, 1#}"
    using assms unfolding xs by (simp add: upt_rec)
  then have "(a = 0 \<and> b = 1) \<or> (a = 1 \<and> b = 0)"
    by (auto simp: add_eq_conv_diff add_mset_eq_singleton_iff)
  then show ?thesis
    using xs by auto
qed

text \<open>Two scores that are not tied: every sort of the contract returns them in one order.\<close>

lemma argsort_pair:
  assumes "argsort_contract srt"
  shows "\<not> ordered_by d x y \<Longrightarrow> srt d [x, y] = [1, 0]"
    and "\<not> ordered_by d y x \<Longrightarrow> srt d [x, y] = [0, 1]"
proof -
  note c = argsort_contractD [OF assms, of d "[x, y]"]
  have l: "length [x, y] = 2" by simp
  have two: "srt d [x, y] = [0, 1] \<or> srt d [x, y] = [1, 0]"
    by (rule perm_two [OF c(1) [unfolded l]])
  show "srt d [x, y] = [1, 0]" if n: "\<not> ordered_by d x y"
  proof -
    have "srt d [x, y] \<noteq> [0, 1]"
    proof
      assume "srt d [x, y] = [0, 1]"
      then have "ordered_by d x y"
        using c(2) by simp
      then show False
        using n by simp
    qed
    then show ?thesis
      using two by blast
  qed
  show "srt d [x, y] = [0, 1]" if n: "\<not> ordered_by d y x"
  proof -
    have "srt d [x, y] \<noteq> [1, 0]"
    proof
      assume "srt d [x, y] = [1, 0]"
      then have "ordered_by d y x"
        using c(2) by simp
      then show False
        using n by simp
    qed
    then show ?thesis
      using two by blast
  qed
qed





text \<open>
  A batch with a saturated row: \<open>softmax\<close> in floats gives \<open>[1, 0]\<close> for the logits
  \<open>[1000, 0]\<close>. The entropy of that row is \<open>nan\<close>, which the descending sort puts
  first: the example is selected before the uniform one.
\<close>

lemma entropy_saturated_first:
  assumes "argsort_contract (argsort lib)"
    and "softmax lib [[1000, 0], [0, 0]] = [[1, 0], [1 / 2, 1 / 2]]"
  shows "get_samples lib
     \<lparr>uncertainty_sampling_method = ''entropy_based'', method_fn = Entropy_based,
      verbose = False\<rparr> 10 logits_model [] [([[1000, 0], [0, 0]], [0, 0])] 1 =
     Inr ([0], [[[1000, 0], [0, 0]]])"
proof -
  let ?self = "\<lparr>uncertainty_sampling_method = ''entropy_based'', method_fn = Entropy_based,
      verbose = False\<rparr>"
  have n: "entropy_row [1, 0] = NaN"
    by (rule entropy_row_nan) simp
  have h: "entropy_row [1 / 2, 1 / 2] = Fin (- (\<Sum>p\<leftarrow>[1 / 2, 1 / 2 :: real]. p * ln p))"
    by (rule entropy_row_positive) simp
  let ?e = "- (\<Sum>p\<leftarrow>[1 / 2, 1 / 2 :: real]. p * ln p)"
  have "\<not> ordered_by True (Fin ?e) NaN"
    by (simp add: ordered_by_def fle_def)
  then have a: "argsort lib True [NaN, Fin ?e] = [0, 1]"
    by (rule argsort_pair(2) [OF assms(1)])
  have m: "call_method lib (method_fn ?self)
      (softmax lib (fst (logits_model [[1000, 0], [0, 0]])))
      (snd (logits_model [[1000, 0], [0, 0]])) None =
      Inr (Scores [NaN, Fin ?e])"
    unfolding sampler.select_convs logits_model_def fst_conv assms(2) call_method.simps
      entropy_based_def list.map n h tensor_def
    by (simp only: sum.case)
  have pf: "(10 :: int) \<noteq> 0" by simp
  have d: "(uncertainty_sampling_method ?self = ''entropy_based'') = True"
    by simp
  have t: "py_take 1 [0, 1 :: nat] = [0]"
    by (simp add: py_take_def)
  show ?thesis
    unfolding single_batch(2) [where model = logits_model
        and data_x = "[[1000, 0], [0, 0]]" and lib = lib and self = ?self, OF pf m] d a t ..
qed

text \<open>
  So it is with the library above: on the logits \<open>[1000, 0]\<close> and \<open>[0, 0]\<close> the
  entropy-based selection of one example returns the first, whose prediction is certain.
\<close>

lemma entropy_saturated_run:
  "get_samples cpu_library
     \<lparr>uncertainty_sampling_method = ''entropy_based'', method_fn = Entropy_based,
      verbose = False\<rparr> 10 logits_model [] [([[1000, 0], [0, 0]], [0, 0])] 1 =
     Inr ([0], [[[1000, 0], [0, 0]]])"
proof (rule entropy_saturated_first)
  show "argsort_contract (argsort cpu_library)"
    by (rule cpu_library_contract(1))
  show "softmax cpu_library [[1000, 0], [0, 0]] = [[1, 0], [1 / 2, 1 / 2]]"
    by (simp add: cpu_library_def float_softmax_def float_softmax_row_saturated
        float_softmax_row_zero2)
qed




section \<open>Properties of the cycle controller\<close>

lemma epoch_body_fields:
  "epoch (epoch_body a ep r st) = ep"
  "recall (epoch_body a ep r st) = r"
  "before (epoch_body a ep r st) = st"
  "is_best (epoch_body a ep r st) = (r > best_recall st)"
  "counter (epoch_body a ep r st) = (if r > best_recall st then 0 else last_best_epochs st + 1)"
  "sampled (epoch_body a ep r st) =
     (ep > labeled_warmup_epochs a \<and>
      (if r > best_recall st then 0 else last_best_epochs st + 1) > add_labeled_epochs a)"
  by (simp_all add: epoch_body_def Let_def)

lemma epoch_body_after:
  "last_best_epochs (after (epoch_body a ep r st)) =
     (if sampled (epoch_body a ep r st) then 0 else counter (epoch_body a ep r st))"
  "best_recall (after (epoch_body a ep r st)) =
     (if \<not> sampled (epoch_body a ep r st) \<and> is_best (epoch_body a ep r st) then r
      else best_recall st)"
  "best_report (after (epoch_body a ep r st)) =
     (if \<not> sampled (epoch_body a ep r st) \<and> is_best (epoch_body a ep r st) then Some ep
      else best_report st)"
  "current_labeled (after (epoch_body a ep r st)) =
     (if sampled (epoch_body a ep r st) then current_labeled st + add_labeled a
      else current_labeled st)"
  by (simp_all add: epoch_body_def Let_def)

text \<open>Every entry of the log is the record of one run of the loop body.\<close>

lemma main_loop_entries:
  "e \<in> set (main_loop a ep st rs) \<Longrightarrow> \<exists>ep' r st'. e = epoch_body a ep' r st'"
proof (induction rs arbitrary: ep st)
  case Nil
  then show ?case by simp
next
  case (Cons r rs)
  then show ?case
    by (auto simp: Let_def split: if_splits)
qed

lemma main_loop_hd:
  "main_loop a ep st rs \<noteq> [] \<Longrightarrow>
   before (hd (main_loop a ep st rs)) = st \<and> epoch (hd (main_loop a ep st rs)) = ep"
  by (cases rs) (auto simp: Let_def epoch_body_fields split: if_splits)

lemma main_loop_linked: "successively linked (main_loop a ep st rs)"
proof (induction rs arbitrary: ep st)
  case Nil
  then show ?case by simp
next
  case (Cons r rs)
  let ?e = "epoch_body a ep r st"
  let ?rest = "main_loop a (ep + 1) (after ?e) rs"
  have "successively linked (?e # ?rest)"
  proof (cases "?rest = []")
    case True
    then show ?thesis by simp
  next
    case False
    then have "linked ?e (hd ?rest)"
      using main_loop_hd [OF False] by (simp add: linked_def epoch_body_fields)
    with False Cons.IH [of "ep + 1" "after ?e"] show ?thesis
      by (cases ?rest) simp_all
  qed
  then show ?case
    by (simp add: Let_def)
qed

lemma main_loop_recalls:
  "map recall (main_loop a ep st rs) = take (length (main_loop a ep st rs)) rs"
  by (induction rs arbitrary: ep st) (simp_all add: Let_def epoch_body_fields)

text \<open>
  The state an epoch of the log starts from is the state the epochs before it have left.
\<close>

lemma main_loop_before:
  assumes "main_loop a ep st rs = pre @ e # post"
  shows "before e = final_state st pre"
proof (cases "pre = []")
  case True
  then have "hd (main_loop a ep st rs) = e" and "main_loop a ep st rs \<noteq> []"
    using assms by simp_all
  then show ?thesis
    using main_loop_hd [of a ep st rs] True by (simp add: final_state_def)
next
  case False
  have "successively linked (pre @ e # post)"
    using main_loop_linked [of a ep st rs] assms by simp
  then have "linked (last pre) e"
    using False by (simp add: successively_append_iff)
  then show ?thesis
    using False by (simp add: linked_def final_state_def)
qed

lemma main_loop_entry_counter:
  assumes "e \<in> set (main_loop a ep st rs)"
  shows "counter e = (if is_best e then 0 else last_best_epochs (before e) + 1)"
    and "last_best_epochs (after e) = (if sampled e then 0 else counter e)"
proof -
  from main_loop_entries [OF assms] obtain ep' r st' where e: "e = epoch_body a ep' r st'"
    by blast
  show "counter e = (if is_best e then 0 else last_best_epochs (before e) + 1)"
    by (simp add: e epoch_body_fields)
  show "last_best_epochs (after e) = (if sampled e then 0 else counter e)"
    unfolding e by (rule epoch_body_after)
qed

lemma main_loop_counter_after:
  "main_loop a ep st rs = pre @ post \<Longrightarrow>
   last_best_epochs (final_state st pre) =
     int (length (takeWhile uneventful (rev pre))) +
     (if list_all uneventful pre then last_best_epochs st else 0)"
proof (induction pre arbitrary: post rule: rev_induct)
  case Nil
  then show ?case by (simp add: final_state_def)
next
  case (snoc e pre)
  have log: "main_loop a ep st rs = pre @ e # post"
    using snoc.prems by simp
  have b: "before e = final_state st pre"
    by (rule main_loop_before [OF log])
  have mem: "e \<in> set (main_loop a ep st rs)"
    using log by simp
  note c = main_loop_entry_counter [OF mem]
  have ih: "last_best_epochs (before e) =
      int (length (takeWhile uneventful (rev pre))) +
      (if list_all uneventful pre then last_best_epochs st else 0)"
    unfolding b by (rule snoc.IH [OF log])
  have fs: "final_state st (pre @ [e]) = after e"
    by (simp add: final_state_def)
  show ?case
  proof (cases "uneventful e")
    case True
    then have "last_best_epochs (after e) = last_best_epochs (before e) + 1"
      using c by (simp add: uneventful_def)
    then show ?thesis
      unfolding fs using True ih by simp
  next
    case False
    then have "last_best_epochs (after e) = 0"
      using c by (auto simp: uneventful_def)
    then show ?thesis
      unfolding fs using False by simp
  qed
qed

text \<open>
  The counter an epoch computes: zero on a new best, and otherwise one more than the number
  of uneventful epochs immediately before it (plus the initial counter, when every epoch
  before it was uneventful).
\<close>

lemma main_loop_counter:
  assumes "main_loop a ep st rs = pre @ e # post"
  shows "counter e =
     (if is_best e then 0
      else 1 + int (length (takeWhile uneventful (rev pre))) +
           (if list_all uneventful pre then last_best_epochs st else 0))"
proof -
  have mem: "e \<in> set (main_loop a ep st rs)"
    using assms by simp
  have "last_best_epochs (before e) =
      int (length (takeWhile uneventful (rev pre))) +
      (if list_all uneventful pre then last_best_epochs st else 0)"
    unfolding main_loop_before [OF assms] by (rule main_loop_counter_after [OF assms])
  then show ?thesis
    using main_loop_entry_counter(1) [OF mem] by simp
qed

text \<open>
  C2. For every sequence of validation recalls, in the log of the run: an epoch is a new
  best exactly when its recall exceeds the best recall so far; the counter is \<open>0\<close>
  after a new best and one more than before otherwise; sampling fires at an epoch exactly
  when the epoch index exceeds \<open>labeled_warmup_epochs\<close> and the counter exceeds
  \<open>add_labeled_epochs\<close>; the epoch leaves the counter at \<open>0\<close> when sampling fired
  and unchanged otherwise. Each epoch starts from the state the previous one left, with
  the next epoch index, reads the next recall of the sequence, and the first epoch is
  \<open>start_epoch\<close>, starting with the counter and the best recall at \<open>0\<close>. So the
  counter an epoch computes is \<open>0\<close> on a new best and otherwise the number of consecutive
  epochs, this one included, that brought no new best since sampling last fired.
\<close>

theorem sampling_trigger:
  "(\<forall>e \<in> set (main a start_labeled recalls).
      is_best e = (recall e > best_recall (before e)) \<and>
      counter e = (if is_best e then 0 else last_best_epochs (before e) + 1) \<and>
      sampled e = (epoch e > labeled_warmup_epochs a \<and> counter e > add_labeled_epochs a) \<and>
      last_best_epochs (after e) = (if sampled e then 0 else counter e)) \<and>
   successively linked (main a start_labeled recalls) \<and>
   map recall (main a start_labeled recalls) = take (length (main a start_labeled recalls)) recalls \<and>
   (main a start_labeled recalls \<noteq> [] \<longrightarrow>
      epoch (hd (main a start_labeled recalls)) = start_epoch a \<and>
      last_best_epochs (before (hd (main a start_labeled recalls))) = 0 \<and>
      best_recall (before (hd (main a start_labeled recalls))) = 0) \<and>
   (\<forall>pre e post. main a start_labeled recalls = pre @ e # post \<longrightarrow>
      counter e =
        (if is_best e then 0 else 1 + int (length (takeWhile uneventful (rev pre)))))"
proof (intro conjI ballI impI allI)
  fix e
  assume "e \<in> set (main a start_labeled recalls)"
  then obtain ep r st where e: "e = epoch_body a ep r st"
    unfolding main_def using main_loop_entries by blast
  show "is_best e = (recall e > best_recall (before e))"
    by (simp add: e epoch_body_fields)
  show "counter e = (if is_best e then 0 else last_best_epochs (before e) + 1)"
    by (simp add: e epoch_body_fields)
  show "sampled e = (epoch e > labeled_warmup_epochs a \<and> counter e > add_labeled_epochs a)"
    by (simp add: e epoch_body_fields)
  show "last_best_epochs (after e) = (if sampled e then 0 else counter e)"
    unfolding e by (rule epoch_body_after)
next
  show "successively linked (main a start_labeled recalls)"
    unfolding main_def by (rule main_loop_linked)
  show "map recall (main a start_labeled recalls) =
      take (length (main a start_labeled recalls)) recalls"
    unfolding main_def by (rule main_loop_recalls)
next
  assume ne: "main a start_labeled recalls \<noteq> []"
  then have h: "before (hd (main a start_labeled recalls)) = initial_state start_labeled
      \<and> epoch (hd (main a start_labeled recalls)) = start_epoch a"
    unfolding main_def by (rule main_loop_hd)
  show "epoch (hd (main a start_labeled recalls)) = start_epoch a"
    using h by simp
  show "last_best_epochs (before (hd (main a start_labeled recalls))) = 0"
    using h by (simp add: initial_state_def)
  show "best_recall (before (hd (main a start_labeled recalls))) = 0"
    using h by (simp add: initial_state_def)
next
  fix pre e post
  assume "main a start_labeled recalls = pre @ e # post"
  then have "main_loop a (start_epoch a) (initial_state start_labeled) recalls = pre @ e # post"
    by (simp add: main_def)
  from main_loop_counter [OF this]
  show "counter e = (if is_best e then 0 else 1 + int (length (takeWhile uneventful (rev pre))))"
    by (simp add: initial_state_def)
qed

text \<open>
  With a non-negative patience, an epoch on which sampling fires is not a new best: a new
  best sets the counter to \<open>0\<close>, which does not exceed the patience.
\<close>

lemma epoch_body_not_best:
  assumes "0 \<le> add_labeled_epochs a" and "sampled (epoch_body a ep r st)"
  shows "\<not> is_best (epoch_body a ep r st)"
  using assms by (auto simp: epoch_body_fields split: if_splits)

lemma epoch_body_keeps_best:
  assumes "0 \<le> add_labeled_epochs a"
  shows "r \<le> best_recall (after (epoch_body a ep r st))"
    and "best_recall st \<le> best_recall (after (epoch_body a ep r st))"
  using assms by (auto simp: epoch_body_after epoch_body_fields split: if_splits)

lemma main_loop_best_sorted:
  assumes "0 \<le> add_labeled_epochs a"
  shows "sorted (best_recall st # map (\<lambda>e. best_recall (after e)) (main_loop a ep st rs))"
proof (induction rs arbitrary: ep st)
  case Nil
  then show ?case by simp
next
  case (Cons r rs)
  let ?e = "epoch_body a ep r st"
  have step: "best_recall st \<le> best_recall (after ?e)"
    by (rule epoch_body_keeps_best [OF assms])
  have "sorted (best_recall st # best_recall (after ?e) #
      map (\<lambda>e. best_recall (after e)) (main_loop a (ep + 1) (after ?e) rs))"
    using step Cons.IH [of "after ?e" "ep + 1"] by auto
  with step show ?case
    by (simp add: Let_def)
qed

text \<open>
  C10. If \<open>add_labeled_epochs\<close> is not negative then, in the log of every run: an epoch
  on which sampling fires is not a new best; after every epoch the best recall is at least
  that epoch's recall, so no better epoch is lost by the sampling branch leaving
  \<open>best_recall\<close> alone; and the best recall never decreases, from its initial \<open>0\<close>
  through the states the epochs leave.
\<close>

theorem best_recall_monotone:
  assumes "0 \<le> add_labeled_epochs a"
  shows "(\<forall>e \<in> set (main a start_labeled recalls).
      (sampled e \<longrightarrow> \<not> is_best e) \<and>
      recall e \<le> best_recall (after e) \<and>
      best_recall (before e) \<le> best_recall (after e)) \<and>
    sorted (0 # map (\<lambda>e. best_recall (after e)) (main a start_labeled recalls))"
proof (intro conjI ballI)
  fix e
  assume "e \<in> set (main a start_labeled recalls)"
  then obtain ep r st where e: "e = epoch_body a ep r st"
    unfolding main_def using main_loop_entries by blast
  show "sampled e \<longrightarrow> \<not> is_best e"
    unfolding e using epoch_body_not_best [OF assms] by blast
  show "recall e \<le> best_recall (after e)"
    unfolding e using epoch_body_keeps_best(1) [OF assms] by (simp add: epoch_body_fields)
  show "best_recall (before e) \<le> best_recall (after e)"
    unfolding e using epoch_body_keeps_best(2) [OF assms] by (simp add: epoch_body_fields)
next
  show "sorted (0 # map (\<lambda>e. best_recall (after e)) (main a start_labeled recalls))"
    using main_loop_best_sorted [OF assms, of "initial_state start_labeled" "start_epoch a" recalls]
    unfolding main_def by (simp add: initial_state_def)
qed



theorem sampling_trigger_witness:
  "map (\<lambda>e. (epoch e, is_best e, counter e, sampled e))
     (main \<lparr>start_epoch = 0, epochs = 10, labeled_warmup_epochs = 2,
      add_labeled_epochs = 1, add_labeled = 1, stop_labeled = 100\<rparr> 0 [5 / 10, 6 / 10, 6 / 10, 6 / 10, 4 / 10]) =
   [(0, True, 0, False), (1, True, 0, False), (2, False, 1, False),
    (3, False, 2, True), (4, False, 1, False)] \<and>
   list_all (\<lambda>e. sampled e = (epoch e > 2 \<and> counter e > 1))
     (main \<lparr>start_epoch = 0, epochs = 10, labeled_warmup_epochs = 2,
      add_labeled_epochs = 1, add_labeled = 1, stop_labeled = 100\<rparr> 0 [5 / 10, 6 / 10, 6 / 10, 6 / 10, 4 / 10])"
proof -
  let ?a = "\<lparr>start_epoch = 0, epochs = 10, labeled_warmup_epochs = 2,
      add_labeled_epochs = 1, add_labeled = 1, stop_labeled = 100\<rparr>"
  let ?rs = "[5 / 10, 6 / 10, 6 / 10, 6 / 10, 4 / 10] :: real list"
  have run: "map (\<lambda>e. (epoch e, is_best e, counter e, sampled e)) (main ?a 0 ?rs) =
     [(0, True, 0, False), (1, True, 0, False), (2, False, 1, False),
      (3, False, 2, True), (4, False, 1, False)]"
    by (simp add: main_def initial_state_def epoch_body_def Let_def)
  have "\<forall>e \<in> set (main ?a 0 ?rs).
      sampled e = (epoch e > labeled_warmup_epochs ?a \<and> counter e > add_labeled_epochs ?a)"
    using sampling_trigger [of ?a 0 ?rs] by blast
  then have "list_all (\<lambda>e. sampled e = (epoch e > 2 \<and> counter e > 1)) (main ?a 0 ?rs)"
    by (simp add: list_all_iff)
  with run show ?thesis by blast
qed

theorem best_recall_monotone_witness:
  "(0::int) \<le> 1 \<and>
   sorted (0 # map (\<lambda>e. best_recall (after e))
     (main \<lparr>start_epoch = 0, epochs = 10, labeled_warmup_epochs = 2,
      add_labeled_epochs = 1, add_labeled = 1, stop_labeled = 100\<rparr> 0 [5 / 10, 6 / 10, 6 / 10, 6 / 10, 4 / 10])) \<and>
   map (\<lambda>e. (sampled e, is_best e, best_recall (after e)))
     (main \<lparr>start_epoch = 0, epochs = 10, labeled_warmup_epochs = 2,
      add_labeled_epochs = 1, add_labeled = 1, stop_labeled = 100\<rparr> 0 [5 / 10, 6 / 10, 6 / 10, 6 / 10, 4 / 10]) =
   [(False, True, 5 / 10), (False, True, 6 / 10), (False, False, 6 / 10),
    (True, False, 6 / 10), (False, False, 6 / 10)]"
proof -
  let ?a = "\<lparr>start_epoch = 0, epochs = 10, labeled_warmup_epochs = 2,
      add_labeled_epochs = 1, add_labeled = 1, stop_labeled = 100\<rparr>"
  let ?rs = "[5 / 10, 6 / 10, 6 / 10, 6 / 10, 4 / 10] :: real list"
  have h: "0 \<le> add_labeled_epochs ?a" by simp
  have run: "map (\<lambda>e. (sampled e, is_best e, best_recall (after e))) (main ?a 0 ?rs) =
     [(False, True, 5 / 10), (False, True, 6 / 10), (False, False, 6 / 10),
      (True, False, 6 / 10), (False, False, 6 / 10)]"
    by (simp add: main_def initial_state_def epoch_body_def Let_def)
  have "sorted (0 # map (\<lambda>e. best_recall (after e)) (main ?a 0 ?rs))"
    using best_recall_monotone [OF h, of 0 ?rs] by blast
  with run show ?thesis by simp
qed

end
